theory Spec2Isabelle
  imports Complex_Main "HOL-Library.Log_Nat"
begin

section \<open>The data connector: request construction and pagination\<close>

text \<open>
  A shallow embedding of \<^verbatim>\<open>Connector._fetch\<close> and \<^verbatim>\<open>Connector.query\<close> of
  \<^verbatim>\<open>dataprep/data_connector/connector.py\<close>.

  Python values of type \<^verbatim>\<open>Any\<close> that the two functions compute with are integers and
  strings. Dictionaries are maps. The dictionaries the connector owns (\<^verbatim>\<open>self.vars\<close>,
  \<^verbatim>\<open>self.auth_params\<close>) and the dictionary \<^verbatim>\<open>merged_vars\<close> that \<^verbatim>\<open>_fetch\<close> builds
  and then mutates live in a store of dictionary objects, addressed by position.
\<close>

subsection \<open>Values, errors and tables\<close>

datatype pyval = VInt int | VStr string

type_synonym vars = "string \<rightharpoonup> pyval"

datatype error =
    AssertionError
  | KeyError
  | TypeError
  | ValueError
  | ZeroDivisionError
  | OverflowError
  | AttributeError
  | UnreachableError
  | RequestError int string
  | ExternalError string

type_synonym row = "string \<rightharpoonup> pyval"

text \<open>A data frame: the rows in order, each with its index label.\<close>

type_synonym dataframe = "(int \<times> row) list"

record response =
  status_code :: int
  resp_text :: string

record req_data =
  rd_headers :: vars
  rd_params :: vars
  rd_cookies :: vars
  rd_json :: "vars option"
  rd_data :: "vars option"

record request =
  rq_method :: string
  rq_url :: string
  rq_headers :: vars
  rq_params :: vars
  rq_json :: "vars option"
  rq_data :: "vars option"
  rq_cookies :: vars

text \<open>
  \<^verbatim>\<open>ImplicitTable\<close>: the attributes \<^verbatim>\<open>_fetch\<close> reads. The field groups (type \<open>'f\<close>) and
  the authorization object (type \<open>'a\<close>) are defined outside this module.
\<close>

record ('f, 'a) itable =
  tb_method :: string
  tb_url :: string
  tb_authorization :: "'a option"
  tb_headers :: "'f option"
  tb_params :: "'f option"
  tb_cookies :: "'f option"
  tb_body :: "'f option"
  tb_body_ctype :: string

text \<open>
  \<^verbatim>\<open>self.impdb.config["request"]["paganition"]\<close>. The keys \<^verbatim>\<open>cursor_key\<close>,
  \<^verbatim>\<open>anchor_key\<close> and \<^verbatim>\<open>cursor_id\<close> are read only on some paths; a missing one is
  \<open>None\<close> and reading it raises \<^verbatim>\<open>KeyError\<close>.
\<close>

record paganition =
  count_key :: string
  max_count :: int
  pag_type :: string
  cursor_key :: "string option"
  anchor_key :: "string option"
  cursor_id :: "string option"

text \<open>
  The connector object. \<open>vars_ref\<close> and \<open>auth_ref\<close> are the addresses of the
  dictionaries \<^verbatim>\<open>self.vars\<close> and \<^verbatim>\<open>self.auth_params\<close> in the store.
\<close>

record ('f, 'a) connector =
  tables :: "string \<rightharpoonup> ('f, 'a) itable"
  config :: paganition
  vars_ref :: nat
  auth_ref :: nat

text \<open>One entry of the transport log: a request that was sent and what came back.\<close>

record log_entry =
  le_kwargs :: vars
  le_vars :: vars
  le_request :: request
  le_response :: response

text \<open>
  The world a call runs in: the store of dictionary objects, the log of the requests
  the session has answered, and the state of the network behind the session.
\<close>

record 'n world =
  heap :: "vars list"
  sent :: "log_entry list"
  net :: 'n

text \<open>
  The collaborators defined outside this module, as parameters:
  \<^item> \<open>populate\<close>: \<^verbatim>\<open>Fields.populate(jenv, merged_vars)\<close>, rendering one field group;
  \<^item> \<open>build\<close>: \<^verbatim>\<open>Authorization.build(req_data, auth_params)\<close>;
  \<^item> \<open>send\<close>: \<^verbatim>\<open>Session.send\<close>;
  \<^item> \<open>from_response\<close>: \<^verbatim>\<open>ImplicitTable.from_response\<close>, the table decoded from a
    response, with whatever index labels the decoder gives its rows;
  \<^item> \<open>str_int\<close>: Python's \<^verbatim>\<open>int\<close> on a string, \<open>None\<close> where it raises \<^verbatim>\<open>ValueError\<close>.
\<close>

record ('f, 'a, 'n) env =
  populate :: "'f \<Rightarrow> vars \<Rightarrow> error + vars"
  build :: "'a \<Rightarrow> req_data \<Rightarrow> vars \<Rightarrow> error + req_data"
  send :: "'n \<Rightarrow> request \<Rightarrow> (error + response) \<times> 'n"
  from_response :: "('f, 'a) itable \<Rightarrow> response \<Rightarrow> error + dataframe"
  str_int :: "string \<Rightarrow> int option"

subsection \<open>Data frames\<close>

text \<open>\<^verbatim>\<open>pd.concat([df, df_], axis=0)\<close>: the rows of both, labels kept.\<close>

definition concat_df :: "dataframe \<Rightarrow> dataframe \<Rightarrow> dataframe" where
  "concat_df df df' = df @ df'"

text \<open>\<^verbatim>\<open>df.reset_index(drop=True)\<close>: the old labels are dropped, the new ones are the positions.\<close>

definition reset_index :: "dataframe \<Rightarrow> dataframe" where
  "reset_index df = zip (map int [0..<length df]) (map snd df)"

text \<open>\<^verbatim>\<open>int(v)\<close>.\<close>

definition py_int :: "('f, 'a, 'n) env \<Rightarrow> pyval \<Rightarrow> error + int" where
  "py_int E v =
     (case v of
        VInt n \<Rightarrow> Inr n
      | VStr s \<Rightarrow> (case str_int E s of None \<Rightarrow> Inl ValueError | Some n \<Rightarrow> Inr n))"

text \<open>
  \<^verbatim>\<open>int(df_[col][len(df_) - 1])\<close>. \<^verbatim>\<open>df_[col]\<close> raises \<^verbatim>\<open>KeyError\<close> when no row of the
  table has the column. \<^verbatim>\<open>[len(df_) - 1]\<close> is a lookup by index label: no row with that
  label is a \<^verbatim>\<open>KeyError\<close>, several rows with it give a series, on which \<^verbatim>\<open>int\<close> raises
  \<^verbatim>\<open>TypeError\<close>. A row without a value in the column holds \<^verbatim>\<open>NaN\<close> there, on which
  \<^verbatim>\<open>int\<close> raises \<^verbatim>\<open>ValueError\<close>.
\<close>

definition last_cursor :: "('f, 'a, 'n) env \<Rightarrow> dataframe \<Rightarrow> string \<Rightarrow> error + int" where
  "last_cursor E df col =
     (if list_all (\<lambda>(l, r). r col = None) df then Inl KeyError
      else case filter (\<lambda>(l, r). l = int (length df) - 1) df of
             [] \<Rightarrow> Inl KeyError
           | [(l, r)] \<Rightarrow> (case r col of None \<Rightarrow> Inl ValueError | Some v \<Rightarrow> py_int E v)
           | _ \<Rightarrow> Inl TypeError)"

subsection \<open>One page: \<^verbatim>\<open>Connector._fetch\<close>\<close>

text \<open>
  \<^verbatim>\<open>merged_vars = {**self.vars, **kwargs}\<close> allocates a new dictionary: the store grows
  by one object, at the address returned.
\<close>

definition alloc :: "vars \<Rightarrow> 'n world \<Rightarrow> nat \<times> 'n world" where
  "alloc d w = (length (heap w), w\<lparr>heap := heap w @ [d]\<rparr>)"

text \<open>
  \<^verbatim>\<open>if "returned_number" in merged_vars: merged_vars[count_key] = merged_vars.pop("returned_number")\<close>
  on the dictionary at address \<open>a\<close>: the key is popped first, then the value is stored.
\<close>

definition rename_count :: "string \<Rightarrow> vars \<Rightarrow> vars" where
  "rename_count ck m =
     (case m ''returned_number'' of
        None \<Rightarrow> m
      | Some v \<Rightarrow> (m(''returned_number'' := None))(ck \<mapsto> v))"

definition rename_at :: "string \<Rightarrow> nat \<Rightarrow> 'n world \<Rightarrow> 'n world" where
  "rename_at ck a w = w\<lparr>heap := (heap w)[a := rename_count ck (heap w ! a)]\<rparr>"

text \<open>\<^verbatim>\<open>auth_params or self.auth_params\<close>: \<^verbatim>\<open>None\<close> and the empty dictionary are falsy.\<close>

definition auth_or :: "vars option \<Rightarrow> vars \<Rightarrow> vars" where
  "auth_or auth_params own =
     (case auth_params of
        None \<Rightarrow> own
      | Some d \<Rightarrow> if d = Map.empty then own else d)"

text \<open>One round of the loop over \<^verbatim>\<open>["headers", "params", "cookies"]\<close>.\<close>

definition populate_into ::
  "('f, 'a, 'n) env \<Rightarrow> 'f option \<Rightarrow> vars \<Rightarrow> vars \<Rightarrow> error + vars" where
  "populate_into E fld mv target =
     (case fld of
        None \<Rightarrow> Inr target
      | Some f \<Rightarrow> (case populate E f mv of Inl e \<Rightarrow> Inl e | Inr inst \<Rightarrow> Inr (target ++ inst)))"

definition populate_body ::
  "('f, 'a, 'n) env \<Rightarrow> ('f, 'a) itable \<Rightarrow> vars \<Rightarrow> req_data \<Rightarrow> error + req_data" where
  "populate_body E tb mv rd =
     (case tb_body tb of
        None \<Rightarrow> Inr rd
      | Some f \<Rightarrow>
         (case populate E f mv of
            Inl e \<Rightarrow> Inl e
          | Inr inst \<Rightarrow>
             if tb_body_ctype tb = ''application/x-www-form-urlencoded''
               then Inr (rd\<lparr>rd_data := Some inst\<rparr>)
             else if tb_body_ctype tb = ''application/json''
               then Inr (rd\<lparr>rd_json := Some inst\<rparr>)
             else Inl UnreachableError))"

text \<open>
  Everything of \<^verbatim>\<open>_fetch\<close> between the renaming and the send: authorization first, then
  headers, params, cookies and the body, all rendered against the same \<open>mv\<close>.
\<close>

definition build_request ::
  "('f, 'a, 'n) env \<Rightarrow> ('f, 'a) itable \<Rightarrow> vars \<Rightarrow> vars \<Rightarrow> error + request" where
  "build_request E tb creds mv =
     (let rd0 = \<lparr>rd_headers = Map.empty, rd_params = Map.empty, rd_cookies = Map.empty,
                 rd_json = None, rd_data = None\<rparr> in
      case (case tb_authorization tb of None \<Rightarrow> Inr rd0 | Some au \<Rightarrow> build E au rd0 creds) of
        Inl e \<Rightarrow> Inl e
      | Inr rd1 \<Rightarrow>
      (case populate_into E (tb_headers tb) mv (rd_headers rd1) of
        Inl e \<Rightarrow> Inl e
      | Inr h \<Rightarrow>
      (case populate_into E (tb_params tb) mv (rd_params rd1) of
        Inl e \<Rightarrow> Inl e
      | Inr p \<Rightarrow>
      (case populate_into E (tb_cookies tb) mv (rd_cookies rd1) of
        Inl e \<Rightarrow> Inl e
      | Inr c \<Rightarrow>
      (case populate_body E tb mv (rd1\<lparr>rd_headers := h, rd_params := p, rd_cookies := c\<rparr>) of
        Inl e \<Rightarrow> Inl e
      | Inr rd \<Rightarrow>
          Inr \<lparr>rq_method = tb_method tb, rq_url = tb_url tb, rq_headers = rd_headers rd,
               rq_params = rd_params rd, rq_json = rd_json rd, rq_data = rd_data rd,
               rq_cookies = rd_cookies rd\<rparr>)))))"

text \<open>
  \<^verbatim>\<open>_fetch\<close>. The result is the response or the exception raised, with the world after
  the call. A request the session has answered is appended to the log together with
  the response, also when the status check then raises.
\<close>

definition fetch ::
  "('f, 'a, 'n) env \<Rightarrow> ('f, 'a) connector \<Rightarrow> ('f, 'a) itable \<Rightarrow> vars option \<Rightarrow> vars \<Rightarrow>
   'n world \<Rightarrow> (error + response) \<times> 'n world" where
  "fetch E self tb auth_params kwargs w =
     (let (a, w1) = alloc (heap w ! vars_ref self ++ kwargs) w;
          w2 = rename_at (count_key (config self)) a w1;
          mv = heap w2 ! a;
          creds = auth_or auth_params (heap w2 ! auth_ref self)
      in case build_request E tb creds mv of
           Inl e \<Rightarrow> (Inl e, w2)
         | Inr req \<Rightarrow>
            (case send E (net w2) req of
               (Inl e, n') \<Rightarrow> (Inl e, w2\<lparr>net := n'\<rparr>)
             | (Inr resp, n') \<Rightarrow>
                (let w3 = w2\<lparr>net := n',
                              sent := sent w2 @ [\<lparr>le_kwargs = kwargs, le_vars = mv,
                                                  le_request = req, le_response = resp\<rparr>]\<rparr>
                 in if status_code resp \<noteq> 200
                      then (Inl (RequestError (status_code resp) (resp_text resp)), w3)
                      else (Inr resp, w3))))"

subsection \<open>All pages: \<^verbatim>\<open>Connector.query\<close>\<close>

text \<open>
  \<^verbatim>\<open>a / b\<close> on integers is a float: the double nearest to the exact quotient, a tie
  going to the even mantissa, and \<^verbatim>\<open>OverflowError\<close> when that is beyond the largest
  double. A positive double is \<open>m * 2 ^ e\<close> with a mantissa \<open>m\<close> of at most 53 bits and
  \<open>e \<ge> - 1074\<close>. For positive \<open>a\<close> and \<open>b\<close>, \<open>quot_exponent a b\<close> is the \<open>k\<close> with
  \<open>2 ^ k \<le> a / b < 2 ^ (k + 1)\<close> (one less than the bit length of \<open>a div b\<close> when
  \<open>b \<le> a\<close>, minus the bit length of \<open>(b - 1) div a\<close> otherwise), and
  \<open>float_quotient a b\<close> is the mantissa and the exponent of the double.
\<close>

definition round_half_even :: "int \<Rightarrow> int \<Rightarrow> int" where
  "round_half_even p q =
     (let f = p div q; r = p mod q
      in if 2 * r < q then f
         else if q < 2 * r then f + 1
         else if even f then f else f + 1)"

definition quot_exponent :: "int \<Rightarrow> int \<Rightarrow> int" where
  "quot_exponent a b =
     (if b \<le> a then bitlen (a div b) - 1 else - bitlen ((b - 1) div a))"

definition float_quotient :: "int \<Rightarrow> int \<Rightarrow> error + int \<times> int" where
  "float_quotient a b =
     (let e = max (quot_exponent a b - 52) (- 1074);
          m = round_half_even (a * 2 ^ nat (- e)) (b * 2 ^ nat e)
      in if 0 \<le> e \<and> 2 ^ 1024 \<le> m * 2 ^ nat e then Inl OverflowError else Inr (m, e))"

text \<open>\<^verbatim>\<open>math.ceil(a / b)\<close> for \<open>b \<noteq> 0\<close>: the least integer not below the float.\<close>

definition true_divide_ceil :: "int \<Rightarrow> int \<Rightarrow> error + int" where
  "true_divide_ceil a b =
     (if a = 0 then Inr 0
      else case float_quotient \<bar>a\<bar> \<bar>b\<bar> of
             Inl err \<Rightarrow> Inl err
           | Inr (m, e) \<Rightarrow>
               (let v = sgn a * sgn b * m
                in Inr (if 0 \<le> e then v * 2 ^ nat e else - ((- v) div 2 ^ nat (- e)))))"

text \<open>
  Line 181 on the value of \<^verbatim>\<open>where["returned_number"]\<close>. Dividing a string raises
  \<^verbatim>\<open>TypeError\<close>, dividing by zero \<^verbatim>\<open>ZeroDivisionError\<close>.
\<close>

definition ceil_div :: "pyval \<Rightarrow> int \<Rightarrow> error + int" where
  "ceil_div v b =
     (case v of
        VStr s \<Rightarrow> Inl TypeError
      | VInt a \<Rightarrow> if b = 0 then Inl ZeroDivisionError else true_divide_ceil a b)"

text \<open>\<^verbatim>\<open>a % b\<close>, reached only after the division above has succeeded.\<close>

definition py_mod :: "pyval \<Rightarrow> int \<Rightarrow> error + int" where
  "py_mod v b =
     (case v of
        VStr s \<Rightarrow> Inl TypeError
      | VInt a \<Rightarrow> if b = 0 then Inl ZeroDivisionError else Inr (a mod b))"

text \<open>The variables of the loop: \<^verbatim>\<open>where\<close>, \<^verbatim>\<open>last_id\<close> and \<^verbatim>\<open>df\<close> (\<open>None\<close> is the initial \<^verbatim>\<open>[]\<close>).\<close>

record loop_state =
  ls_where :: vars
  ls_last_id :: int
  ls_df :: "dataframe option"

text \<open>Lines 186 to 192: the size requested for page \<open>i\<close>.\<close>

definition page_size :: "int \<Rightarrow> int \<Rightarrow> int \<Rightarrow> nat \<Rightarrow> int" where
  "page_size mc n_page remain i =
     (if int i < n_page - 1 then mc else if remain \<noteq> 0 then remain else mc)"

text \<open>Lines 193 to 196.\<close>

definition inject_cursor :: "paganition \<Rightarrow> nat \<Rightarrow> int \<Rightarrow> vars \<Rightarrow> error + vars" where
  "inject_cursor cfg i last_id whr =
     (if pag_type cfg = ''cursor'' \<and> i > 0
        then (case cursor_key cfg of
                None \<Rightarrow> Inl KeyError
              | Some ck \<Rightarrow> Inr (whr(ck \<mapsto> VInt (last_id - 1))))
        else Inr whr)"

text \<open>Lines 197 to 200.\<close>

definition inject_anchor :: "paganition \<Rightarrow> nat \<Rightarrow> vars \<Rightarrow> error + vars" where
  "inject_anchor cfg i whr =
     (if pag_type cfg = ''limit''
        then (case anchor_key cfg of
                None \<Rightarrow> Inl KeyError
              | Some ak \<Rightarrow> Inr (whr(ak \<mapsto> VInt (0 + int i * max_count cfg))))
        else Inr whr)"

text \<open>Lines 204 to 212.\<close>

definition next_last_id ::
  "('f, 'a, 'n) env \<Rightarrow> paganition \<Rightarrow> dataframe \<Rightarrow> int \<Rightarrow> error + int" where
  "next_last_id E cfg df' last_id =
     (if pag_type cfg = ''cursor''
        then (case cursor_id cfg of
                None \<Rightarrow> Inl KeyError
              | Some cid \<Rightarrow>
                 (case last_cursor E df' cid of Inl e \<Rightarrow> Inl e | Inr v \<Rightarrow> Inr (v - 1)))
        else Inr last_id)"

text \<open>
  Lines 213 to 216. \<^verbatim>\<open>pd.concat\<close> on the initial \<^verbatim>\<open>[]\<close> raises \<^verbatim>\<open>TypeError\<close>; the loop
  never gets there, since page 0 comes first.
\<close>

definition accumulate :: "nat \<Rightarrow> dataframe option \<Rightarrow> dataframe \<Rightarrow> error + dataframe" where
  "accumulate i df df' =
     (if i = 0 then Inr df'
      else (case df of None \<Rightarrow> Inl TypeError | Some d \<Rightarrow> Inr (concat_df d df')))"

text \<open>Lines 186 to 200 together: \<^verbatim>\<open>where\<close> as page \<open>i\<close> hands it to \<^verbatim>\<open>_fetch\<close>.\<close>

definition page_where :: "paganition \<Rightarrow> int \<Rightarrow> int \<Rightarrow> nat \<Rightarrow> loop_state \<Rightarrow> error + vars" where
  "page_where cfg n_page remain i st =
     (case inject_cursor cfg i (ls_last_id st)
             ((ls_where st)(''returned_number'' \<mapsto>
                VInt (page_size (max_count cfg) n_page remain i))) of
        Inl e \<Rightarrow> Inl e
      | Inr whr2 \<Rightarrow> inject_anchor cfg i whr2)"

text \<open>The body of the loop for page \<open>i\<close>.\<close>

definition page_step ::
  "('f, 'a, 'n) env \<Rightarrow> ('f, 'a) connector \<Rightarrow> ('f, 'a) itable \<Rightarrow> vars option \<Rightarrow> int \<Rightarrow> int \<Rightarrow>
   nat \<Rightarrow> loop_state \<Rightarrow> 'n world \<Rightarrow> (error + loop_state) \<times> 'n world" where
  "page_step E self tb auth_params n_page remain i st w =
     (case page_where (config self) n_page remain i st of
        Inl e \<Rightarrow> (Inl e, w)
      | Inr whr3 \<Rightarrow>
     (case fetch E self tb auth_params whr3 w of
        (Inl e, w') \<Rightarrow> (Inl e, w')
      | (Inr resp, w') \<Rightarrow>
     (case from_response E tb resp of
        Inl e \<Rightarrow> (Inl e, w')
      | Inr df' \<Rightarrow>
     (case next_last_id E (config self) df' (ls_last_id st) of
        Inl e \<Rightarrow> (Inl e, w')
      | Inr lid \<Rightarrow>
     (case accumulate i (ls_df st) df' of
        Inl e \<Rightarrow> (Inl e, w')
      | Inr d \<Rightarrow>
          (Inr \<lparr>ls_where = whr3, ls_last_id = lid, ls_df = Some d\<rparr>, w'))))))"

text \<open>\<^verbatim>\<open>for i in range(n_page)\<close>, over the list of the indices; an exception ends it.\<close>

fun page_loop ::
  "('f, 'a, 'n) env \<Rightarrow> ('f, 'a) connector \<Rightarrow> ('f, 'a) itable \<Rightarrow> vars option \<Rightarrow> int \<Rightarrow> int \<Rightarrow>
   nat list \<Rightarrow> loop_state \<Rightarrow> 'n world \<Rightarrow> (error + loop_state) \<times> 'n world" where
  "page_loop E self tb auth_params n_page remain [] st w = (Inr st, w)"
| "page_loop E self tb auth_params n_page remain (i # is) st w =
     (case page_step E self tb auth_params n_page remain i st w of
        (Inl e, w') \<Rightarrow> (Inl e, w')
      | (Inr st', w') \<Rightarrow> page_loop E self tb auth_params n_page remain is st' w')"

text \<open>\<^verbatim>\<open>range(n)\<close> for an integer \<open>n\<close>: empty when \<open>n \<le> 0\<close>.\<close>

definition py_range :: "int \<Rightarrow> nat list" where
  "py_range n = [0..<nat n]"

text \<open>
  \<^verbatim>\<open>query\<close>. \<open>whr\<close> is the dictionary of the keyword arguments \<^verbatim>\<open>**where\<close>, made for the
  call. \<^verbatim>\<open>df.reset_index\<close> on the initial \<^verbatim>\<open>[]\<close> raises \<^verbatim>\<open>AttributeError\<close>.
\<close>

definition query ::
  "('f, 'a, 'n) env \<Rightarrow> ('f, 'a) connector \<Rightarrow> string \<Rightarrow> vars option \<Rightarrow> vars \<Rightarrow>
   'n world \<Rightarrow> (error + dataframe) \<times> 'n world" where
  "query E self table auth_params whr w =
     (case tables self table of
        None \<Rightarrow> (Inl AssertionError, w)
      | Some itb \<Rightarrow>
         (case whr ''returned_number'' of
            None \<Rightarrow>
             (case fetch E self itb auth_params
                     (whr(''returned_number'' \<mapsto> VInt (max_count (config self)))) w of
                (Inl e, w') \<Rightarrow> (Inl e, w')
              | (Inr resp, w') \<Rightarrow>
                 (case from_response E itb resp of
                    Inl e \<Rightarrow> (Inl e, w')
                  | Inr df \<Rightarrow> (Inr df, w')))
          | Some rn \<Rightarrow>
             (case ceil_div rn (max_count (config self)) of
                Inl e \<Rightarrow> (Inl e, w)
              | Inr n_page \<Rightarrow>
             (case py_mod rn (max_count (config self)) of
                Inl e \<Rightarrow> (Inl e, w)
              | Inr remain \<Rightarrow>
             (case page_loop E self itb auth_params n_page remain (py_range n_page)
                     \<lparr>ls_where = whr, ls_last_id = 0, ls_df = None\<rparr> w of
                (Inl e, w') \<Rightarrow> (Inl e, w')
              | (Inr st, w') \<Rightarrow>
                 (case ls_df st of
                    None \<Rightarrow> (Inl AttributeError, w')
                  | Some df \<Rightarrow> (Inr (reset_index df), w')))))))"

section \<open>Properties\<close>

subsection \<open>The observations the properties are stated on\<close>

text \<open>The contents of \<^verbatim>\<open>merged_vars\<close> when the request is built.\<close>

definition merged_vars :: "('f, 'a) connector \<Rightarrow> vars \<Rightarrow> 'n world \<Rightarrow> vars" where
  "merged_vars self kwargs w =
     rename_count (count_key (config self)) (heap w ! vars_ref self ++ kwargs)"

text \<open>The log entry of a request sent from the world \<open>w\<close>.\<close>

definition entry ::
  "('f, 'a) connector \<Rightarrow> vars \<Rightarrow> 'n world \<Rightarrow> request \<Rightarrow> response \<Rightarrow> log_entry" where
  "entry self kwargs w req resp =
     \<lparr>le_kwargs = kwargs, le_vars = merged_vars self kwargs w,
      le_request = req, le_response = resp\<rparr>"

text \<open>The requests sent between two worlds.\<close>

definition fetched :: "'n world \<Rightarrow> 'n world \<Rightarrow> log_entry list" where
  "fetched w w' = drop (length (sent w)) (sent w')"

text \<open>The rows decoded from the response of a logged request.\<close>

definition page_rows :: "('f, 'a, 'n) env \<Rightarrow> ('f, 'a) itable \<Rightarrow> log_entry \<Rightarrow> row list" where
  "page_rows E tb e =
     (case from_response E tb (le_response e) of Inl err \<Rightarrow> [] | Inr df \<Rightarrow> map snd df)"

subsection \<open>A scripted session for concrete runs\<close>

text \<open>
  A session that answers the requests with a fixed list of responses, in order; a decoder
  that makes one row per character of the body, with the character code in column
  \<^verbatim>\<open>id\<close>, and labels the rows by position; a rendering that passes the variables through; a table with a params group
  only; a connector with one table \<^verbatim>\<open>t\<close>, whose two dictionaries are empty.
\<close>

definition scripted_send ::
  "response list \<Rightarrow> request \<Rightarrow> (error + response) \<times> response list" where
  "scripted_send n req =
     (case n of
        [] \<Rightarrow> (Inl (ExternalError ''connection closed''), [])
      | r # rs \<Rightarrow> (Inr r, rs))"

definition id_rows :: "response \<Rightarrow> row list" where
  "id_rows resp = map (\<lambda>c. [''id'' \<mapsto> VInt (int (of_char c))]) (resp_text resp)"

definition indexed :: "int \<Rightarrow> row list \<Rightarrow> dataframe" where
  "indexed start rows = zip (map (\<lambda>i. start + int i) [0..<length rows]) rows"

definition probe_env :: "(unit, unit, response list) env" where
  "probe_env =
     \<lparr>populate = (\<lambda>f mv. Inr mv),
      build = (\<lambda>a rd creds. Inr rd),
      send = scripted_send,
      from_response = (\<lambda>tb resp. Inr (indexed 0 (id_rows resp))),
      str_int = (\<lambda>s. None)\<rparr>"

definition probe_table :: "(unit, unit) itable" where
  "probe_table =
     \<lparr>tb_method = ''GET'', tb_url = ''http://example.org/t'', tb_authorization = None,
      tb_headers = None, tb_params = Some (), tb_cookies = None, tb_body = None,
      tb_body_ctype = ''application/json''\<rparr>"

definition probe_config :: "string \<Rightarrow> int \<Rightarrow> paganition" where
  "probe_config ty mc =
     \<lparr>count_key = ''count'', max_count = mc, pag_type = ty,
      cursor_key = Some ''max_id'', anchor_key = Some ''start'', cursor_id = Some ''id''\<rparr>"

definition probe_connector :: "string \<Rightarrow> int \<Rightarrow> (unit, unit) connector" where
  "probe_connector ty mc =
     \<lparr>tables = [''t'' \<mapsto> probe_table], config = probe_config ty mc,
      vars_ref = 0, auth_ref = 1\<rparr>"

definition probe_world :: "response list \<Rightarrow> response list world" where
  "probe_world rs = \<lparr>heap = [Map.empty, Map.empty], sent = [], net = rs\<rparr>"

definition reply :: "int \<Rightarrow> string \<Rightarrow> response" where
  "reply c s = \<lparr>status_code = c, resp_text = s\<rparr>"

definition script3 :: "response list world" where
  "script3 = probe_world [reply 200 ''ab'', reply 200 ''cd'', reply 200 ''e'']"

text \<open>Five rows in pages of two, by offset.\<close>

definition limit_run :: "(error + dataframe) \<times> response list world" where
  "limit_run =
     query probe_env (probe_connector ''limit'' 2) ''t'' None
       [''returned_number'' \<mapsto> VInt 5] script3"

text \<open>Five rows in pages of two, on a source without pagination parameters.\<close>

definition plain_run :: "(error + dataframe) \<times> response list world" where
  "plain_run =
     query probe_env (probe_connector ''none'' 2) ''t'' None
       [''returned_number'' \<mapsto> VInt 5] script3"

text \<open>The same query on a session whose second answer is an error.\<close>

definition refusing :: "response list world" where
  "refusing = probe_world [reply 200 ''ab'', reply 500 ''boom'', reply 200 ''e'']"


text \<open>
  A connector whose own dictionaries are not empty, queried with an authentication
  override.
\<close>

definition stocked :: "response list world" where
  "stocked =
     \<lparr>heap = [[''lang'' \<mapsto> VStr ''en'', ''returned_number'' \<mapsto> VInt 9],
              [''token'' \<mapsto> VStr ''k'']],
      sent = [],
      net = [reply 200 ''ab'', reply 200 ''cd'', reply 200 ''e'']\<rparr>"

definition override_run :: "(error + dataframe) \<times> response list world" where
  "override_run =
     query probe_env (probe_connector ''cursor'' 2) ''t'' (Some [''token'' \<mapsto> VStr ''z''])
       [''returned_number'' \<mapsto> VInt 5] stocked"

text \<open>A rendering that fails as soon as it is shown the key \<^verbatim>\<open>returned_number\<close>.\<close>

definition wary_populate :: "unit \<Rightarrow> vars \<Rightarrow> error + vars" where
  "wary_populate f mv =
     (if mv ''returned_number'' = None then Inr mv
      else Inl (ExternalError ''returned_number is visible''))"

text \<open>One more row than a page holds, for a page of \<open>10 ^ 17\<close> rows.\<close>

definition big_run :: "(error + dataframe) \<times> response list world" where
  "big_run =
     query probe_env (probe_connector ''limit'' (10 ^ 17)) ''t'' None
       [''returned_number'' \<mapsto> VInt (10 ^ 17 + 1)] script3"

text \<open>A configuration whose offset parameter is itself called \<^verbatim>\<open>returned_number\<close>.\<close>

definition clash_connector :: "(unit, unit) connector" where
  "clash_connector =
     (probe_connector ''limit'' 2)
       \<lparr>config := (probe_config ''limit'' 2)\<lparr>anchor_key := Some ''returned_number''\<rparr>\<rparr>"

definition clash_run :: "(error + dataframe) \<times> response list world" where
  "clash_run =
     query probe_env clash_connector ''t'' None [''returned_number'' \<mapsto> VInt 5] script3"

text \<open>A configuration whose count parameter is itself called \<^verbatim>\<open>returned_number\<close>.\<close>

definition reserved_connector :: "(unit, unit) connector" where
  "reserved_connector =
     (probe_connector ''limit'' 50)
       \<lparr>config := (probe_config ''limit'' 50)\<lparr>count_key := ''returned_number''\<rparr>\<rparr>"

text \<open>A decoder that labels the rows of a page from \<open>10\<close> on, and a query without a total.\<close>

definition shifted_env :: "(unit, unit, response list) env" where
  "shifted_env = probe_env\<lparr>from_response := (\<lambda>tb resp. Inr (indexed 10 (id_rows resp)))\<rparr>"

definition shifted_run :: "(error + dataframe) \<times> response list world" where
  "shifted_run = query shifted_env (probe_connector ''limit'' 2) ''t'' None Map.empty script3"

subsection \<open>The float quotient\<close>

lemma round_half_even_bounds:
  assumes "0 < q" and "l * q < p" and "p \<le> u * q" and "q < 2 * (p - l * q)"
  shows "l < round_half_even p q \<and> round_half_even p q \<le> u"
proof -
  let ?f = "p div q" and ?r = "p mod q"
  have pq: "p = q * ?f + ?r" by simp
  have r: "0 \<le> ?r" "?r < q" using assms(1) by simp_all
  have fl: "l \<le> ?f"
  proof -
    have "l * q \<le> p" using assms(2) by simp
    then have "(l * q) div q \<le> p div q" by (rule zdiv_mono1) (rule assms(1))
    then show ?thesis using assms(1) by simp
  qed
  have fu: "?f \<le> u"
  proof -
    have "p div q \<le> (u * q) div q" using assms(3) by (rule zdiv_mono1) (rule assms(1))
    then show ?thesis using assms(1) by simp
  qed
  have up: "?f = u \<Longrightarrow> ?r = 0"
  proof -
    assume "?f = u"
    with pq have "p = q * u + ?r" by simp
    with assms(3) r show "?r = 0" by (simp add: mult.commute)
  qed
  have low: "?f = l \<Longrightarrow> q < 2 * ?r"
  proof -
    assume "?f = l"
    with pq have "?r = p - l * q" by (simp add: mult.commute)
    with assms(4) show "q < 2 * ?r" by simp
  qed
  consider "2 * ?r < q" | "q < 2 * ?r" | "2 * ?r = q" by linarith
  then show ?thesis
  proof cases
    case 1
    with low have "?f \<noteq> l" by auto
    with fl fu 1 show ?thesis by (simp add: round_half_even_def Let_def)
  next
    case 2
    with up assms(1) have "?f \<noteq> u" by auto
    with fl fu 2 show ?thesis by (simp add: round_half_even_def Let_def)
  next
    case 3
    with low have "?f \<noteq> l" by auto
    moreover from 3 up assms(1) have "?f \<noteq> u" by auto
    ultimately show ?thesis using fl fu 3 by (simp add: round_half_even_def Let_def)
  qed
qed

lemma round_half_even_nonneg:
  assumes "0 < q" and "0 \<le> p"
  shows "0 \<le> round_half_even p q"
proof -
  have "0 \<le> p div q" using assms by (simp add: pos_imp_zdiv_nonneg_iff)
  then show ?thesis by (auto simp: round_half_even_def Let_def)
qed

lemma ceil_scaled:
  assumes "(c - 1) * 2 ^ n < (m::int)" and "m \<le> c * 2 ^ n"
  shows "- ((- m) div 2 ^ n) = c"
proof -
  have "(- m) div 2 ^ n = - c"
  proof (rule int_div_pos_eq)
    show "- m = 2 ^ n * (- c) + (c * 2 ^ n - m)" by (simp add: algebra_simps)
    show "0 \<le> c * 2 ^ n - m" using assms(2) by simp
    show "c * 2 ^ n - m < 2 ^ n" using assms(1) by (simp add: algebra_simps)
  qed
  then show ?thesis by simp
qed


lemma quot_exponent_small:
  assumes "1 \<le> a" "a < 2 ^ 53" "1 \<le> b" "b < 2 ^ 53"
  shows "- 53 \<le> quot_exponent a b \<and> quot_exponent a b \<le> 52 \<and>
         b < 2 ^ nat (53 - quot_exponent a b)"
proof (cases "b \<le> a")
  case True
  let ?q = "a div b"
  have "0 < ?q" using True assms(3) pos_imp_zdiv_pos_iff [of b a] by simp
  then have q: "1 \<le> ?q" by simp
  have "?q \<le> a" using assms(1,3) zdiv_mono2 [of a 1 b] by simp
  with assms(2) have "?q < 2 ^ nat 53" by simp
  then have hi: "bitlen ?q \<le> 53" by (simp add: bitlen_le_iff_power)
  from q have lo: "1 \<le> bitlen ?q" by (simp add: bitlen_ge_iff_power)
  from q bitlen_bounds [of ?q] have "2 ^ nat (bitlen ?q - 1) \<le> ?q" by simp
  then have "b * 2 ^ nat (bitlen ?q - 1) \<le> b * ?q" using assms(3) by simp
  also have "\<dots> \<le> a"
  proof -
    have "a = b * ?q + a mod b" by simp
    moreover have "0 \<le> a mod b" using assms(3) by simp
    ultimately show ?thesis by linarith
  qed
  also have "a < 2 ^ 53" by (rule assms(2))
  also have "(2::int) ^ 53 = 2 ^ nat (54 - bitlen ?q) * 2 ^ nat (bitlen ?q - 1)"
    using lo hi by (simp flip: power_add nat_add_distrib)
  finally have "b < 2 ^ nat (54 - bitlen ?q)" by simp
  with True lo hi show ?thesis by (simp add: quot_exponent_def)
next
  case False
  let ?u = "(b - 1) div a"
  from False have "a \<le> b - 1" by simp
  then have "0 < ?u" using assms(1) pos_imp_zdiv_pos_iff [of a "b - 1"] by simp
  then have u: "1 \<le> ?u" by simp
  have "?u \<le> b - 1" using assms(1,3) zdiv_mono2 [of "b - 1" 1 a] by simp
  with assms(4) have "?u < 2 ^ nat 53" by simp
  then have hi: "bitlen ?u \<le> 53" by (simp add: bitlen_le_iff_power)
  from u have lo: "1 \<le> bitlen ?u" by (simp add: bitlen_ge_iff_power)
  have "(2::int) ^ 53 \<le> 2 ^ nat (53 + bitlen ?u)"
    using lo by (intro power_increasing) simp_all
  with assms(4) have "b < 2 ^ nat (53 + bitlen ?u)" by simp
  with False lo hi show ?thesis by (simp add: quot_exponent_def)
qed

lemma true_divide_ceil_exact:
  assumes "1 \<le> a" "a < 2 ^ 53" "1 \<le> b" "b < 2 ^ 53"
  shows "true_divide_ceil a b = Inr (- ((- a) div b))"
proof -
  let ?k = "quot_exponent a b"
  let ?n = "nat (52 - ?k)"
  let ?c = "- ((- a) div b)"
  from quot_exponent_small [OF assms]
  have k: "- 53 \<le> ?k" "?k \<le> 52" and b: "b < 2 ^ nat (53 - ?k)" by simp_all
  from k have e: "max (?k - 52) (- 1074) = ?k - 52" by simp
  from k have n1: "nat (53 - ?k) = Suc ?n" by simp
  have c: "(?c - 1) * b < a" "a \<le> ?c * b"
  proof -
    define d where "d = (- a) div b"
    define r where "r = (- a) mod b"
    have eq: "- a = b * d + r" by (simp add: d_def r_def)
    have r: "0 \<le> r" "r < b" using assms(3) by (simp_all add: r_def)
    have "(- d - 1) * b = - (b * d) - b" "- d * b = - (b * d)" by (simp_all add: algebra_simps)
    with eq r show "(?c - 1) * b < a" "a \<le> ?c * b"
      unfolding d_def [symmetric] by linarith+
  qed
  let ?m = "round_half_even (a * 2 ^ ?n) b"
  have m: "(?c - 1) * 2 ^ ?n < ?m \<and> ?m \<le> ?c * 2 ^ ?n"
  proof (rule round_half_even_bounds)
    show "0 < b" using assms(3) by simp
    have "(?c - 1) * b * 2 ^ ?n < a * 2 ^ ?n"
      using c(1) by (rule mult_strict_right_mono) simp
    then show "(?c - 1) * 2 ^ ?n * b < a * 2 ^ ?n"
      by (simp only: ac_simps)
    have "a * 2 ^ ?n \<le> ?c * b * 2 ^ ?n"
      using c(2) by (rule mult_right_mono) simp
    then show "a * 2 ^ ?n \<le> ?c * 2 ^ ?n * b"
      by (simp only: ac_simps)
    define D where "D = a - (?c - 1) * b"
    define P :: int where "P = 2 * 2 ^ ?n"
    have "1 \<le> D" using c(1) by (simp add: D_def)
    moreover have "0 \<le> P" by (simp add: P_def)
    ultimately have "P * 1 \<le> P * D" by (rule mult_left_mono)
    moreover from b n1 have "b < P" by (simp add: P_def)
    ultimately have "b < P * D" by simp
    then show "b < 2 * (a * 2 ^ ?n - (?c - 1) * 2 ^ ?n * b)"
      by (simp add: P_def D_def algebra_simps)
  qed
  have fq: "float_quotient a b = Inr (?m, ?k - 52)"
  proof -
    have "\<not> (0 \<le> ?k - 52 \<and> (2::int) ^ 1024 \<le> ?m * 2 ^ nat (?k - 52))"
    proof
      assume h: "0 \<le> ?k - 52 \<and> (2::int) ^ 1024 \<le> ?m * 2 ^ nat (?k - 52)"
      with k have k52: "?k = 52" by simp
      with m have "?m \<le> ?c" by simp
      moreover have "?c \<le> a"
      proof -
        have "- a \<le> (- a) div b" using assms(1,3)
          by (smt (verit) div_by_1 zdiv_mono2_neg)
        then show ?thesis by simp
      qed
      ultimately have "?m < 2 ^ 53" using assms(2) by simp
      also have "(2::int) ^ 53 \<le> 2 ^ 1024" by simp
      finally show False using h k52 by simp
    qed
    moreover have "nat (- (?k - 52)) = ?n" by simp
    moreover have "(2::int) ^ nat (?k - 52) = 1" using k by simp
    ultimately show ?thesis by (simp add: float_quotient_def e Let_def)
  qed
  have "(if 0 \<le> ?k - 52 then ?m * 2 ^ nat (?k - 52)
         else - ((- ?m) div 2 ^ nat (- (?k - 52)))) = ?c"
  proof (cases "0 \<le> ?k - 52")
    case True
    with k have "?k = 52" by simp
    with m show ?thesis by simp
  next
    case False
    have "nat (- (?k - 52)) = ?n" by simp
    with False m ceil_scaled [of ?c ?n ?m] show ?thesis by simp
  qed
  with fq assms(1,3) show ?thesis by (simp add: true_divide_ceil_def)
qed

lemma true_divide_ceil_nonpos:
  assumes "0 < a" and "b < 0" and "true_divide_ceil a b = Inr n"
  shows "n \<le> 0"
proof -
  from assms obtain m e where fq: "float_quotient \<bar>a\<bar> \<bar>b\<bar> = Inr (m, e)"
    by (auto simp: true_divide_ceil_def split: sum.splits)
  then have m: "m = round_half_even (\<bar>a\<bar> * 2 ^ nat (- (max (quot_exponent \<bar>a\<bar> \<bar>b\<bar> - 52) (- 1074))))
                     (\<bar>b\<bar> * 2 ^ nat (max (quot_exponent \<bar>a\<bar> \<bar>b\<bar> - 52) (- 1074)))"
    by (auto simp: float_quotient_def Let_def split: if_splits)
  have "0 < \<bar>b\<bar>" using assms(2) by simp
  then have "0 < \<bar>b\<bar> * 2 ^ nat (max (quot_exponent \<bar>a\<bar> \<bar>b\<bar> - 52) (- 1074))"
    by (intro mult_pos_pos) simp_all
  then have "0 \<le> m" unfolding m by (rule round_half_even_nonneg) simp
  moreover from assms fq have "n = (if 0 \<le> e then - m * 2 ^ nat e else - (m div 2 ^ nat (- e)))"
    by (auto simp: true_divide_ceil_def)
  ultimately show ?thesis by (auto simp: pos_imp_zdiv_nonneg_iff mult_nonneg_nonneg)
qed



lemma true_divide_ceil_big: "true_divide_ceil (10 ^ 17 + 1) (10 ^ 17) = Inr 1"
  by code_simp

lemma ceil_div_small:
  assumes "1 \<le> r" "r < 2 ^ 53" "1 \<le> m" "m < 2 ^ 53"
  shows "ceil_div (VInt r) m = Inr (- ((- r) div m))"
  using assms true_divide_ceil_exact [OF assms] by (simp add: ceil_div_def)

lemma ceil_div_big: "ceil_div (VInt 100000000000000001) 100000000000000000 = Inr 1"
proof -
  have "true_divide_ceil 100000000000000001 100000000000000000 = Inr 1"
    using true_divide_ceil_big by simp
  then show ?thesis by (simp add: ceil_div_def)
qed

subsection \<open>Unfolding one call\<close>

lemma fetch_unfold:
  "fetch E self tb ap kw w =
     (let mv = merged_vars self kw w;
          w2 = w\<lparr>heap := heap w @ [mv]\<rparr>
      in case build_request E tb (auth_or ap (heap w2 ! auth_ref self)) mv of
           Inl e \<Rightarrow> (Inl e, w2)
         | Inr req \<Rightarrow>
            (case send E (net w) req of
               (Inl e, n') \<Rightarrow> (Inl e, w2\<lparr>net := n'\<rparr>)
             | (Inr resp, n') \<Rightarrow>
                 (if status_code resp \<noteq> 200
                    then Inl (RequestError (status_code resp) (resp_text resp))
                    else Inr resp,
                  w2\<lparr>net := n', sent := sent w @ [entry self kw w req resp]\<rparr>)))"
  by (simp add: fetch_def alloc_def rename_at_def merged_vars_def entry_def Let_def
           split: sum.splits prod.splits)

lemma fetch_heap:
  "heap (snd (fetch E self tb ap kw w)) = heap w @ [merged_vars self kw w]"
  by (simp add: fetch_unfold Let_def split: sum.splits prod.splits)

lemma fetch_cases:
  assumes "fetch E self tb ap kw w = (res, w')"
  obtains
    (unsent) e where "res = Inl e" "sent w' = sent w"
  | (refused) req resp where
      "status_code resp \<noteq> 200"
      "res = Inl (RequestError (status_code resp) (resp_text resp))"
      "sent w' = sent w @ [entry self kw w req resp]"
  | (ok) req resp where "status_code resp = 200" "res = Inr resp"
      "sent w' = sent w @ [entry self kw w req resp]"
proof (cases "build_request E tb
        (auth_or ap ((heap w @ [merged_vars self kw w]) ! auth_ref self)) (merged_vars self kw w)")
  case (Inl e)
  with assms unsent show ?thesis by (auto simp: fetch_unfold Let_def)
next
  case (Inr req)
  obtain r n' where s: "send E (net w) req = (r, n')" by (cases "send E (net w) req")
  show ?thesis
  proof (cases r)
    case (Inl e)
    with assms Inr s unsent show ?thesis by (auto simp: fetch_unfold Let_def)
  next
    case r: (Inr rsp)
    show ?thesis
    proof (cases "status_code rsp = 200")
      case True
      with assms Inr s r ok [of rsp req] show ?thesis by (auto simp: fetch_unfold Let_def)
    next
      case False
      with assms Inr s r refused [of rsp req] show ?thesis by (auto simp: fetch_unfold Let_def)
    qed
  qed
qed

subsection \<open>Unfolding one round of the loop\<close>

lemma page_step_cases:
  assumes "page_step E self tb ap n rem i st w = (res, w')"
  obtains
    (unsent) e where "res = Inl e" "sent w' = sent w"
  | (refused) kw req resp where
      "page_where (config self) n rem i st = Inr kw"
      "status_code resp \<noteq> 200"
      "res = Inl (RequestError (status_code resp) (resp_text resp))"
      "sent w' = sent w @ [entry self kw w req resp]"
  | (dropped) e kw req resp where
      "page_where (config self) n rem i st = Inr kw"
      "status_code resp = 200" "res = Inl e"
      "sent w' = sent w @ [entry self kw w req resp]"
  | (ok) kw req resp df' lid d where
      "page_where (config self) n rem i st = Inr kw"
      "status_code resp = 200"
      "from_response E tb resp = Inr df'"
      "next_last_id E (config self) df' (ls_last_id st) = Inr lid"
      "accumulate i (ls_df st) df' = Inr d"
      "res = Inr \<lparr>ls_where = kw, ls_last_id = lid, ls_df = Some d\<rparr>"
      "sent w' = sent w @ [entry self kw w req resp]"
proof (cases "page_where (config self) n rem i st")
  case (Inl e)
  with assms unsent show ?thesis by (auto simp: page_step_def)
next
  case kw: (Inr kw)
  obtain r w1 where f: "fetch E self tb ap kw w = (r, w1)"
    by (cases "fetch E self tb ap kw w")
  from f show ?thesis
  proof (cases rule: fetch_cases)
    case u: (unsent e)
    with assms kw f unsent show ?thesis by (auto simp: page_step_def)
  next
    case u: (refused req resp)
    with assms kw f refused [of kw resp req] show ?thesis
      by (auto simp: page_step_def)
  next
    case u: (ok req resp)
    with assms kw f have r: "(res, w') =
       (case from_response E tb resp of
        Inl e \<Rightarrow> (Inl e, w1)
      | Inr df' \<Rightarrow>
     (case next_last_id E (config self) df' (ls_last_id st) of
        Inl e \<Rightarrow> (Inl e, w1)
      | Inr lid \<Rightarrow>
     (case accumulate i (ls_df st) df' of
        Inl e \<Rightarrow> (Inl e, w1)
      | Inr d \<Rightarrow>
          (Inr \<lparr>ls_where = kw, ls_last_id = lid, ls_df = Some d\<rparr>, w1))))"
      by (auto simp: page_step_def)
    show ?thesis
    proof (cases "from_response E tb resp")
      case (Inl e)
      with r u kw dropped [of kw resp e req] show ?thesis by auto
    next
      case df: (Inr df')
      show ?thesis
      proof (cases "next_last_id E (config self) df' (ls_last_id st)")
        case (Inl e)
        with r u kw df dropped [of kw resp e req] show ?thesis by auto
      next
        case lid: (Inr lid)
        show ?thesis
        proof (cases "accumulate i (ls_df st) df'")
          case (Inl e)
          with r u kw df lid dropped [of kw resp e req] show ?thesis by auto
        next
          case (Inr d)
          with r u kw df lid ok [of kw resp df' lid d req] show ?thesis by auto
        qed
      qed
    qed
  qed
qed

lemma page_step_heap:
  assumes "page_step E self tb ap n rem i st w = (res, w')"
  shows "\<exists>xs. heap w' = heap w @ xs"
proof (cases "page_where (config self) n rem i st")
  case (Inl e)
  with assms show ?thesis by (auto simp: page_step_def)
next
  case (Inr kw)
  have "heap (snd (fetch E self tb ap kw w)) = heap w @ [merged_vars self kw w]"
    by (rule fetch_heap)
  moreover from assms Inr have "w' = snd (fetch E self tb ap kw w)"
    by (auto simp: page_step_def split: sum.splits prod.splits)
  ultimately show ?thesis by auto
qed

subsection \<open>The log of a run of the loop\<close>

lemma page_loop_log:
  assumes "page_loop E self tb ap n rem is st w = (res, w')"
  shows "\<exists>es. sent w' = sent w @ es \<and> length es \<le> length is \<and>
           (\<forall>st'. res = Inr st' \<longrightarrow> length es = length is) \<and>
           (\<forall>(i, e) \<in> set (zip is es).
               \<exists>s base. page_where (config self) n rem i s = Inr (le_kwargs e) \<and>
                     le_vars e = rename_count (count_key (config self)) (base ++ le_kwargs e)) \<and>
           (\<forall>e \<in> set es. status_code (le_response e) \<noteq> 200 \<longrightarrow>
               res = Inl (RequestError (status_code (le_response e))
                                       (resp_text (le_response e))))"
  using assms
proof (induction "is" arbitrary: st w)
  case Nil
  then show ?case by simp
next
  case (Cons i "is")
  obtain r w1 where step: "page_step E self tb ap n rem i st w = (r, w1)"
    by (cases "page_step E self tb ap n rem i st w")
  from step show ?case
  proof (cases rule: page_step_cases)
    case (unsent e)
    with Cons.prems step have "res = Inl e" "sent w' = sent w" by auto
    then show ?thesis by simp
  next
    case (refused kw req resp)
    with Cons.prems step have "res = Inl (RequestError (status_code resp) (resp_text resp))"
      "sent w' = sent w @ [entry self kw w req resp]" by auto
    with refused show ?thesis by (auto simp: entry_def merged_vars_def)
  next
    case (dropped e kw req resp)
    with Cons.prems step have "res = Inl e"
      "sent w' = sent w @ [entry self kw w req resp]" by auto
    with dropped show ?thesis by (auto simp: entry_def merged_vars_def)
  next
    case (ok kw req resp df' lid d)
    with Cons.prems step
    have "page_loop E self tb ap n rem is \<lparr>ls_where = kw, ls_last_id = lid, ls_df = Some d\<rparr> w1
            = (res, w')" by auto
    from Cons.IH [OF this] obtain es where
      es: "sent w' = sent w1 @ es" "length es \<le> length is"
        "\<forall>st'. res = Inr st' \<longrightarrow> length es = length is"
        "\<forall>(i, e) \<in> set (zip is es).
               \<exists>s base. page_where (config self) n rem i s = Inr (le_kwargs e) \<and>
                     le_vars e = rename_count (count_key (config self)) (base ++ le_kwargs e)"
        "\<forall>e \<in> set es. status_code (le_response e) \<noteq> 200 \<longrightarrow>
               res = Inl (RequestError (status_code (le_response e))
                                       (resp_text (le_response e)))"
      by blast
    let ?e = "entry self kw w req resp"
    have "sent w' = sent w @ (?e # es)" using es(1) ok by simp
    moreover have "length (?e # es) \<le> length (i # is)" using es(2) by simp
    moreover have "\<forall>st'. res = Inr st' \<longrightarrow> length (?e # es) = length (i # is)"
      using es(3) by simp
    moreover have "\<forall>(i, e) \<in> set (zip (i # is) (?e # es)).
               \<exists>s base. page_where (config self) n rem i s = Inr (le_kwargs e) \<and>
                     le_vars e = rename_count (count_key (config self)) (base ++ le_kwargs e)"
      using es(4) ok(1) by (auto simp: entry_def merged_vars_def)
    moreover have "\<forall>e \<in> set (?e # es). status_code (le_response e) \<noteq> 200 \<longrightarrow>
               res = Inl (RequestError (status_code (le_response e))
                                       (resp_text (le_response e)))"
      using es(5) ok(2) by (auto simp: entry_def merged_vars_def)
    ultimately show ?thesis by blast
  qed
qed


subsection \<open>The two branches of \<^verbatim>\<open>query\<close>\<close>

lemma query_paged:
  assumes "query E self table ap whr w = (res, w')"
    and "whr ''returned_number'' = Some (VInt r)"
    and "max_count (config self) \<noteq> 0"
  obtains
    (unknown) "tables self table = None" "res = Inl AssertionError" "w' = w"
  | (undivided) e where
      "true_divide_ceil r (max_count (config self)) = Inl e" "res = Inl e" "w' = w"
  | (paged) itb N lres where
      "tables self table = Some itb"
      "true_divide_ceil r (max_count (config self)) = Inr N"
      "page_loop E self itb ap N (r mod max_count (config self)) [0..<nat N]
         \<lparr>ls_where = whr, ls_last_id = 0, ls_df = None\<rparr> w = (lres, w')"
      "res = (case lres of
                Inl e \<Rightarrow> Inl e
              | Inr st \<Rightarrow> (case ls_df st of
                             None \<Rightarrow> Inl AttributeError
                           | Some df \<Rightarrow> Inr (reset_index df)))"
proof (cases "tables self table")
  case None
  with assms unknown show ?thesis by (auto simp: query_def)
next
  case (Some itb)
  show ?thesis
  proof (cases "true_divide_ceil r (max_count (config self))")
    case (Inl e)
    with assms Some undivided show ?thesis
      by (auto simp: query_def ceil_div_def)
  next
    case (Inr N)
    obtain lres w1 where l: "page_loop E self itb ap N (r mod max_count (config self))
           [0..<nat N] \<lparr>ls_where = whr, ls_last_id = 0, ls_df = None\<rparr> w = (lres, w1)"
      by (cases "page_loop E self itb ap N (r mod max_count (config self))
           [0..<nat N] \<lparr>ls_where = whr, ls_last_id = 0, ls_df = None\<rparr> w")
    with assms Some Inr have "w1 = w'" and "res = (case lres of
                  Inl e \<Rightarrow> Inl e
                | Inr st \<Rightarrow> (case ls_df st of
                               None \<Rightarrow> Inl AttributeError
                             | Some df \<Rightarrow> Inr (reset_index df)))"
      by (auto simp: query_def ceil_div_def py_mod_def py_range_def
               split: sum.splits option.splits)
    with l Some Inr paged show ?thesis by blast
  qed
qed

lemma query_single:
  assumes "query E self table ap whr w = (res, w')"
    and "whr ''returned_number'' = None"
  obtains
    (unknown) "tables self table = None" "res = Inl AssertionError" "w' = w"
  | (single) itb fres where
      "tables self table = Some itb"
      "fetch E self itb ap (whr(''returned_number'' \<mapsto> VInt (max_count (config self)))) w
         = (fres, w')"
      "res = (case fres of Inl e \<Rightarrow> Inl e | Inr resp \<Rightarrow> from_response E itb resp)"
proof (cases "tables self table")
  case None
  with assms unknown show ?thesis by (auto simp: query_def)
next
  case (Some itb)
  obtain fres w1 where f:
    "fetch E self itb ap (whr(''returned_number'' \<mapsto> VInt (max_count (config self)))) w
       = (fres, w1)"
    by (cases "fetch E self itb ap
                 (whr(''returned_number'' \<mapsto> VInt (max_count (config self)))) w")
  with assms Some have "w1 = w'"
    and "res = (case fres of Inl e \<Rightarrow> Inl e | Inr resp \<Rightarrow> from_response E itb resp)"
    by (auto simp: query_def split: sum.splits)
  with f Some single show ?thesis by blast
qed

lemma query_unpaged:
  assumes "query E self table ap whr w = (res, w')"
    and "whr ''returned_number'' = Some v"
    and "max_count (config self) = 0 \<or> (\<exists>s. v = VStr s)"
  shows "w' = w" and "\<exists>e. res = Inl e"
  using assms
  by (auto simp: query_def ceil_div_def py_mod_def split: option.splits pyval.splits)

lemma fetched_append: "sent w' = sent w @ es \<Longrightarrow> fetched w w' = es"
  by (simp add: fetched_def)

lemma query_undivided:
  assumes "query E self table ap whr w = (res, w')"
    and "whr ''returned_number'' = Some (VInt r)"
    and "max_count (config self) \<noteq> 0"
    and "true_divide_ceil r (max_count (config self)) = Inl e"
  shows "w' = w" and "\<exists>e. res = Inl e"
  using assms(1-3)
  by (cases rule: query_paged; use assms(4) in simp)+

lemma query_paged_log:
  assumes q: "query E self table ap whr w = (res, w')"
    and r: "whr ''returned_number'' = Some (VInt r)"
    and m: "max_count (config self) \<noteq> 0"
    and N: "true_divide_ceil r (max_count (config self)) = Inr N"
  shows "sent w' = sent w @ fetched w w' \<and>
         length (fetched w w') \<le> nat N \<and>
         ((\<exists>df. res = Inr df) \<longrightarrow> length (fetched w w') = nat N) \<and>
         (\<forall>j < length (fetched w w').
            \<exists>s base. page_where (config self) N (r mod max_count (config self)) j s
                        = Inr (le_kwargs (fetched w w' ! j)) \<and>
                     le_vars (fetched w w' ! j)
                        = rename_count (count_key (config self))
                            (base ++ le_kwargs (fetched w w' ! j))) \<and>
         (\<forall>e \<in> set (fetched w w'). status_code (le_response e) \<noteq> 200 \<longrightarrow>
            res = Inl (RequestError (status_code (le_response e))
                                    (resp_text (le_response e))))"
  using q r m
proof (cases rule: query_paged)
  case unknown
  then show ?thesis by (simp add: fetched_def)
next
  case (undivided e)
  with N show ?thesis by simp
next
  case (paged itb N' lres)
  with N have N': "N' = N" by simp
  from page_loop_log [OF paged(3) [unfolded N']] obtain es where
    es: "sent w' = sent w @ es" "length es \<le> length [0..<nat N]"
        "\<forall>st'. lres = Inr st' \<longrightarrow> length es = length [0..<nat N]"
        "\<forall>(i, e) \<in> set (zip [0..<nat N] es).
               \<exists>s base. page_where (config self) N (r mod max_count (config self)) i s
                           = Inr (le_kwargs e) \<and>
                     le_vars e = rename_count (count_key (config self)) (base ++ le_kwargs e)"
        "\<forall>e \<in> set es. status_code (le_response e) \<noteq> 200 \<longrightarrow>
               lres = Inl (RequestError (status_code (le_response e))
                                       (resp_text (le_response e)))"
    by blast
  have f: "fetched w w' = es" using es(1) by (rule fetched_append)
  have 1: "length es \<le> nat N" using es(2) by simp
  have 2: "(\<exists>df. res = Inr df) \<longrightarrow> length es = nat N"
    using es(3) paged(4) by (auto split: sum.splits option.splits)
  have 3: "\<forall>j < length es.
            \<exists>s base. page_where (config self) N (r mod max_count (config self)) j s
                        = Inr (le_kwargs (es ! j)) \<and>
                     le_vars (es ! j)
                        = rename_count (count_key (config self)) (base ++ le_kwargs (es ! j))"
  proof (intro allI impI)
    fix j assume j: "j < length es"
    with 1 have "j < nat N" by simp
    with j have "(j, es ! j) \<in> set (zip [0..<nat N] es)"
      by (auto simp: set_zip intro!: exI [of _ j])
    with es(4) show "\<exists>s base. page_where (config self) N (r mod max_count (config self)) j s
                        = Inr (le_kwargs (es ! j)) \<and>
                     le_vars (es ! j)
                        = rename_count (count_key (config self)) (base ++ le_kwargs (es ! j))"
      by blast
  qed
  have 4: "\<forall>e \<in> set es. status_code (le_response e) \<noteq> 200 \<longrightarrow>
            res = Inl (RequestError (status_code (le_response e))
                                    (resp_text (le_response e)))"
    using es(5) paged(4) by auto
  from es(1) 1 2 3 4 show ?thesis unfolding f by blast
qed

subsection \<open>What a page hands to \<^verbatim>\<open>_fetch\<close>\<close>

lemma page_where_size:
  assumes "page_where cfg n rem i s = Inr kw"
    and "cursor_key cfg \<noteq> Some ''returned_number''"
    and "anchor_key cfg \<noteq> Some ''returned_number''"
  shows "kw ''returned_number'' = Some (VInt (page_size (max_count cfg) n rem i))"
  using assms
  by (auto simp: page_where_def inject_cursor_def inject_anchor_def
           split: if_splits option.splits)

lemma page_where_anchor:
  assumes "page_where cfg n rem i s = Inr kw"
    and "pag_type cfg = ''limit''"
    and "anchor_key cfg = Some ak"
  shows "kw ak = Some (VInt (int i * max_count cfg))"
  using assms
  by (auto simp: page_where_def inject_cursor_def inject_anchor_def
           split: if_splits option.splits)

lemma page_where_plain:
  assumes "page_where cfg n rem i s = Inr kw"
    and "pag_type cfg \<noteq> ''cursor''"
    and "pag_type cfg \<noteq> ''limit''"
  shows "kw = (ls_where s)(''returned_number'' \<mapsto> VInt (page_size (max_count cfg) n rem i))"
  using assms
  by (auto simp: page_where_def inject_cursor_def inject_anchor_def
           split: if_splits option.splits)

lemma rename_count_key:
  "kw ''returned_number'' = Some v \<Longrightarrow> rename_count ck (base ++ kw) ck = Some v"
  by (simp add: rename_count_def)

lemma query_single_log:
  assumes q: "query E self table ap whr w = (res, w')"
    and r: "whr ''returned_number'' = None"
  shows "sent w' = sent w @ fetched w w' \<and>
         length (fetched w w') \<le> 1 \<and>
         ((\<exists>df. res = Inr df) \<longrightarrow> length (fetched w w') = 1) \<and>
         (\<forall>e \<in> set (fetched w w').
            le_kwargs e = whr(''returned_number'' \<mapsto> VInt (max_count (config self))) \<and>
            (\<exists>base. le_vars e = rename_count (count_key (config self)) (base ++ le_kwargs e)) \<and>
            (status_code (le_response e) \<noteq> 200 \<longrightarrow>
               res = Inl (RequestError (status_code (le_response e))
                                       (resp_text (le_response e)))))"
  using q r
proof (cases rule: query_single)
  case unknown
  then show ?thesis by (simp add: fetched_def)
next
  case (single itb fres)
  from single(2) show ?thesis
  proof (cases rule: fetch_cases)
    case (unsent e)
    with single(3) show ?thesis by (simp add: fetched_def)
  next
    case (refused req resp)
    with single(3) show ?thesis by (auto simp: fetched_def entry_def merged_vars_def)
  next
    case (ok req resp)
    then show ?thesis by (auto simp: fetched_def entry_def merged_vars_def)
  qed
qed

lemma page_loop_plain:
  assumes "page_loop E self tb ap n rem is st w = (res, w')"
    and "pag_type (config self) \<noteq> ''cursor''"
    and "pag_type (config self) \<noteq> ''limit''"
  shows "\<forall>e \<in> set (fetched w w'). \<forall>k. k \<noteq> ''returned_number'' \<longrightarrow>
           le_kwargs e k = ls_where st k"
  using assms(1)
proof (induction "is" arbitrary: st w)
  case Nil
  then show ?case by (simp add: fetched_def)
next
  case (Cons i "is")
  obtain r w1 where step: "page_step E self tb ap n rem i st w = (r, w1)"
    by (cases "page_step E self tb ap n rem i st w")
  from step show ?case
  proof (cases rule: page_step_cases)
    case (unsent e)
    with Cons.prems step have "sent w' = sent w" by auto
    then show ?thesis by (simp add: fetched_def)
  next
    case (refused kw req resp)
    with Cons.prems step have "sent w' = sent w @ [entry self kw w req resp]" by auto
    with page_where_plain [OF refused(1) assms(2,3)] show ?thesis
      by (simp add: fetched_def entry_def)
  next
    case (dropped e kw req resp)
    with Cons.prems step have "sent w' = sent w @ [entry self kw w req resp]" by auto
    with page_where_plain [OF dropped(1) assms(2,3)] show ?thesis
      by (simp add: fetched_def entry_def)
  next
    case (ok kw req resp df' lid d)
    with Cons.prems step
    have loop: "page_loop E self tb ap n rem is
                  \<lparr>ls_where = kw, ls_last_id = lid, ls_df = Some d\<rparr> w1 = (res, w')"
      by auto
    from page_loop_log [OF loop] obtain es where es: "sent w' = sent w1 @ es" by blast
    then have f1: "fetched w1 w' = es" by (rule fetched_append)
    from es ok have "sent w' = sent w @ (entry self kw w req resp # es)" by simp
    then have f: "fetched w w' = entry self kw w req resp # es" by (rule fetched_append)
    have kw: "kw = (ls_where st)(''returned_number'' \<mapsto>
                 VInt (page_size (max_count (config self)) n rem i))"
      by (rule page_where_plain [OF ok(1) assms(2,3)])
    from Cons.IH [OF loop] f1 have "\<forall>e \<in> set es. \<forall>k. k \<noteq> ''returned_number'' \<longrightarrow>
           le_kwargs e k = kw k" by simp
    with kw show ?thesis unfolding f by (simp add: entry_def)
  qed
qed

lemma query_success_pages:
  assumes "query E self table ap whr w = (Inr df, w')"
    and "whr ''returned_number'' = Some (VInt r)"
  shows "max_count (config self) \<noteq> 0 \<and>
         (\<exists>N. true_divide_ceil r (max_count (config self)) = Inr N \<and> 0 < N)"
proof -
  have m: "max_count (config self) \<noteq> 0"
    using query_unpaged(2) [OF assms] by auto
  from assms m have "\<exists>N. true_divide_ceil r (max_count (config self)) = Inr N \<and> 0 < N"
  proof (cases rule: query_paged)
    case unknown
    then show ?thesis by simp
  next
    case (undivided e)
    then show ?thesis by simp
  next
    case (paged itb N lres)
    have "0 < N"
    proof (rule ccontr)
      assume "\<not> 0 < N"
      then have "nat N = 0" by simp
      with paged(3) have "lres = Inr \<lparr>ls_where = whr, ls_last_id = 0, ls_df = None\<rparr>"
        by auto
      with paged(4) show False by simp
    qed
    with paged(2) show ?thesis by simp
  qed
  with m show ?thesis by simp
qed



lemma page_loop_heap:
  assumes "page_loop E self tb ap n rem is st w = (res, w')"
  shows "\<exists>xs. heap w' = heap w @ xs"
  using assms
proof (induction "is" arbitrary: st w)
  case Nil
  then show ?case by simp
next
  case (Cons i "is")
  obtain r w1 where step: "page_step E self tb ap n rem i st w = (r, w1)"
    by (cases "page_step E self tb ap n rem i st w")
  from page_step_heap [OF step] obtain xs where xs: "heap w1 = heap w @ xs" by blast
  show ?case
  proof (cases r)
    case (Inl e)
    with Cons.prems step have "w' = w1" by simp
    with xs show ?thesis by blast
  next
    case (Inr st1)
    with Cons.prems step have "page_loop E self tb ap n rem is st1 w1 = (res, w')" by simp
    from Cons.IH [OF this] obtain ys where "heap w' = heap w1 @ ys" by blast
    with xs have "heap w' = heap w @ (xs @ ys)" by simp
    then show ?thesis by blast
  qed
qed

lemma query_heap:
  assumes "query E self table ap whr w = (res, w')"
  shows "\<exists>xs. heap w' = heap w @ xs"
proof (cases "whr ''returned_number''")
  case None
  from assms None show ?thesis
  proof (cases rule: query_single)
    case unknown
    then show ?thesis by simp
  next
    case (single itb fres)
    from fetch_heap [of E self itb ap _ w] single(2) show ?thesis
      by (metis snd_conv)
  qed
next
  case (Some v)
  show ?thesis
  proof (cases "max_count (config self) = 0 \<or> (\<exists>s. v = VStr s)")
    case True
    from query_unpaged(1) [OF assms Some True] show ?thesis by simp
  next
    case False
    then obtain r where v: "v = VInt r" and m: "max_count (config self) \<noteq> 0"
      by (cases v) auto
    from assms Some [unfolded v] m show ?thesis
    proof (cases rule: query_paged)
      case unknown
      then show ?thesis by simp
    next
      case (undivided e)
      then show ?thesis by simp
    next
      case (paged itb N lres)
      from page_loop_heap [OF paged(3)] show ?thesis .
    qed
  qed
qed

subsection \<open>Rendering reads the merged variables only\<close>

lemma populate_into_cong:
  "\<forall>f. p f mv = populate E f mv \<Longrightarrow>
   populate_into (E\<lparr>populate := p\<rparr>) fld mv t = populate_into E fld mv t"
  by (cases fld) (simp_all add: populate_into_def)

lemma populate_body_cong:
  "\<forall>f. p f mv = populate E f mv \<Longrightarrow>
   populate_body (E\<lparr>populate := p\<rparr>) tb mv rd = populate_body E tb mv rd"
  by (cases "tb_body tb") (simp_all add: populate_body_def)

lemma build_request_cong:
  assumes "\<forall>f. p f mv = populate E f mv"
  shows "build_request (E\<lparr>populate := p\<rparr>) tb creds mv = build_request E tb creds mv"
  using assms
  by (simp add: build_request_def populate_into_cong populate_body_cong Let_def
           cong: sum.case_cong option.case_cong)

lemma fetch_cong:
  assumes "\<forall>f. p f (merged_vars self kwargs w) = populate E f (merged_vars self kwargs w)"
  shows "fetch (E\<lparr>populate := p\<rparr>) self tb ap kwargs w = fetch E self tb ap kwargs w"
  using assms
  by (simp add: fetch_unfold build_request_cong Let_def cong: sum.case_cong)

subsection \<open>Rows and index of the pages\<close>

lemma snd_reset_index: "map snd (reset_index df) = map snd df"
  by (simp add: reset_index_def)

lemma fst_reset_index: "map fst (reset_index df) = map int [0..<length df]"
  by (simp add: reset_index_def)

lemma length_reset_index: "length (reset_index df) = length df"
  by (simp add: reset_index_def)

lemma page_step_rows:
  assumes "page_step E self tb ap n rem i st w = (Inr st', w')"
  shows "\<exists>e df'. fetched w w' = [e] \<and> sent w' = sent w @ [e] \<and>
           from_response E tb (le_response e) = Inr df' \<and>
           accumulate i (ls_df st) df' = Inr (the (ls_df st')) \<and> ls_df st' \<noteq> None"
  using assms
proof (cases rule: page_step_cases)
  case (ok kw req resp df' lid d)
  from ok(7) have "fetched w w' = [entry self kw w req resp]" by (rule fetched_append)
  moreover have "from_response E tb (le_response (entry self kw w req resp)) = Inr df'"
    using ok(3) by (simp add: entry_def)
  ultimately show ?thesis using ok by auto
qed simp_all

lemma page_loop_rows:
  assumes "page_loop E self tb ap n rem is st w = (Inr st', w')"
    and "\<forall>i \<in> set is. 0 < i"
    and "ls_df st = Some d"
  shows "\<exists>d'. ls_df st' = Some d' \<and>
           map snd d' = map snd d @ concat (map (page_rows E tb) (fetched w w')) \<and>
           (\<forall>e \<in> set (fetched w w'). \<exists>t. from_response E tb (le_response e) = Inr t)"
  using assms
proof (induction "is" arbitrary: st w d)
  case Nil
  then show ?case by (simp add: fetched_def)
next
  case (Cons i "is")
  obtain r w1 where step: "page_step E self tb ap n rem i st w = (r, w1)"
    by (cases "page_step E self tb ap n rem i st w")
  with Cons.prems(1) obtain st1 where r: "r = Inr st1"
    and loop: "page_loop E self tb ap n rem is st1 w1 = (Inr st', w')"
    by (cases r) auto
  from page_step_rows [OF step [unfolded r]] obtain e df' where
    e: "fetched w w1 = [e]" "sent w1 = sent w @ [e]"
       "from_response E tb (le_response e) = Inr df'"
       "accumulate i (ls_df st) df' = Inr (the (ls_df st1))" "ls_df st1 \<noteq> None"
    by blast
  from Cons.prems(2) have i: "0 < i" and rest: "\<forall>i \<in> set is. 0 < i" by simp_all
  from e(4,5) i Cons.prems(3) have d1: "ls_df st1 = Some (d @ df')"
    by (auto simp: accumulate_def concat_df_def)
  from Cons.IH [OF loop rest d1] obtain d' where
    d': "ls_df st' = Some d'"
        "map snd d' = map snd (d @ df') @ concat (map (page_rows E tb) (fetched w1 w'))"
        "\<forall>e \<in> set (fetched w1 w'). \<exists>t. from_response E tb (le_response e) = Inr t"
    by blast
  from page_loop_log [OF loop] obtain es where es: "sent w' = sent w1 @ es" by blast
  then have f1: "fetched w1 w' = es" by (rule fetched_append)
  from es e(2) have "sent w' = sent w @ (e # es)" by simp
  then have f: "fetched w w' = e # es" by (rule fetched_append)
  have pe: "page_rows E tb e = map snd df'" using e(3) by (simp add: page_rows_def)
  from d' f1 pe e(3) show ?case unfolding f by simp
qed

lemma indexed_Nil: "indexed start [] = []"
  by (simp add: indexed_def)

lemma indexed_Cons: "indexed start (r # rs) = (start, r) # indexed (start + 1) rs"
proof -
  have "map (\<lambda>i. start + int i) [0..<Suc (length rs)]
          = start # map (\<lambda>i. start + 1 + int i) [0..<length rs]"
    by (simp add: upt_conv_Cons map_Suc_upt [symmetric] del: upt_Suc)
  then show ?thesis by (simp add: indexed_def)
qed

lemmas probe_defs = probe_env_def probe_table_def probe_config_def probe_connector_def
  probe_world_def reply_def scripted_send_def id_rows_def script3_def refusing_def stocked_def
  indexed_Nil indexed_Cons clash_connector_def reserved_connector_def shifted_env_def

lemmas model_defs = query_def page_step_def page_where_def fetch_unfold merged_vars_def entry_def
  rename_count_def build_request_def populate_into_def populate_body_def auth_or_def
  concat_df_def reset_index_def next_last_id_def last_cursor_def
  py_int_def accumulate_def inject_cursor_def inject_anchor_def page_size_def ceil_div_small
  py_mod_def py_range_def fetched_def page_rows_def

subsection \<open>The cursor handed to the second page\<close>

text \<open>
  C1. The claim: the cursor parameter of page \<open>i > 0\<close> is the integer in the cursor
  column of the last row of page \<open>i - 1\<close>, minus one; page \<open>0\<close> gets none. The code
  subtracts one when it captures \<^verbatim>\<open>last_id\<close> and one more when it injects it. On a
  cursor source with pages of two rows, four rows requested and a first page whose last
  row has id \<open>99\<close>, page \<open>0\<close> carries no cursor and page \<open>1\<close> carries \<open>97\<close>, not \<open>98\<close>.
\<close>

theorem cursor_second_page_run:
  "(case query probe_env (probe_connector ''cursor'' 2) ''t'' None
           [''returned_number'' \<mapsto> VInt 4] (probe_world [reply 200 ''dc'', reply 200 ''ba'']) of
      (res, w') \<Rightarrow>
        map (\<lambda>e. last (id_rows (le_response e)) ''id'') (sent w')
          = [Some (VInt 99), Some (VInt 97)] \<and>
        map (\<lambda>e. le_kwargs e ''max_id'') (sent w') = [None, Some (VInt 97)] \<and>
        map_sum id (map fst) res = Inr [0, 1, 2, 3])"
  by (simp add: probe_defs model_defs Let_def upt_rec)

subsection \<open>No rows requested\<close>

text \<open>
  C9. When \<^verbatim>\<open>returned_number\<close> is \<open>0\<close> (and the page size is not \<open>0\<close>), \<^verbatim>\<open>query\<close> sends
  nothing and returns no table: the loop runs zero times, \<^verbatim>\<open>df\<close> is still the list
  \<^verbatim>\<open>[]\<close>, and \<^verbatim>\<open>reset_index\<close> on it raises \<^verbatim>\<open>AttributeError\<close>. The world is the one
  before the call, so the log of requests has not grown.
\<close>

theorem query_zero_rows:
  assumes "tables self table = Some itb"
    and "whr ''returned_number'' = Some (VInt 0)"
    and "max_count (config self) \<noteq> 0"
  shows "query E self table ap whr w = (Inl AttributeError, w)"
  using assms
  by (simp add: query_def ceil_div_def true_divide_ceil_def py_mod_def py_range_def)

theorem query_zero_rows_witness:
  "tables (probe_connector ''limit'' 50) ''t'' = Some probe_table \<and>
   [''returned_number'' \<mapsto> VInt 0] ''returned_number'' = Some (VInt 0) \<and>
   max_count (config (probe_connector ''limit'' 50)) \<noteq> 0 \<and>
   query probe_env (probe_connector ''limit'' 50) ''t'' None [''returned_number'' \<mapsto> VInt 0]
     (probe_world [reply 200 ''a'']) = (Inl AttributeError, probe_world [reply 200 ''a''])"
proof -
  have t: "tables (probe_connector ''limit'' 50) ''t'' = Some probe_table"
    by (simp add: probe_connector_def)
  have r: "[''returned_number'' \<mapsto> VInt 0] ''returned_number'' = Some (VInt 0)"
    by simp
  have m: "max_count (config (probe_connector ''limit'' 50)) \<noteq> 0"
    by (simp add: probe_connector_def probe_config_def)
  show ?thesis
    using t r m
      query_zero_rows [where self = "probe_connector ''limit'' 50" and table = "''t''"
        and itb = probe_table and whr = "[''returned_number'' \<mapsto> VInt 0]"
        and E = probe_env and ap = None and w = "probe_world [reply 200 ''a'']"]
    by simp
qed

subsection \<open>The offset of a page\<close>

text \<open>
  C4. With the offset strategy (\<^verbatim>\<open>type\<close> is \<^verbatim>\<open>limit\<close> in the configuration) and a
  requested total, the request of page \<open>j\<close>, counted from \<open>0\<close>, is made with the offset
  parameter \<open>j * max_count\<close> in \<^verbatim>\<open>where\<close>: for the first page, the last page and all
  between, whatever size the page asks for.
\<close>

theorem offset_of_page:
  assumes "query E self table ap whr w = (res, w')"
    and "whr ''returned_number'' = Some v"
    and "pag_type (config self) = ''limit''"
    and "anchor_key (config self) = Some ak"
  shows "\<forall>j < length (fetched w w').
           le_kwargs (fetched w w' ! j) ak = Some (VInt (int j * max_count (config self)))"
proof (cases "max_count (config self) = 0 \<or> (\<exists>s. v = VStr s)")
  case True
  from query_unpaged(1) [OF assms(1,2) True] show ?thesis by (simp add: fetched_def)
next
  case False
  then obtain r where v: "v = VInt r" and m: "max_count (config self) \<noteq> 0"
    by (cases v) auto
  show ?thesis
  proof (cases "true_divide_ceil r (max_count (config self))")
    case (Inl err)
    from query_undivided(1) [OF assms(1) assms(2) [unfolded v] m Inl] show ?thesis
      by (simp add: fetched_def)
  next
    case (Inr N)
    note L = query_paged_log [OF assms(1) assms(2) [unfolded v] m Inr]
    show ?thesis
    proof (intro allI impI)
      fix j assume "j < length (fetched w w')"
      with L obtain s where
        "page_where (config self) N (r mod max_count (config self)) j s
           = Inr (le_kwargs (fetched w w' ! j))"
        by blast
      from page_where_anchor [OF this assms(3,4)]
      show "le_kwargs (fetched w w' ! j) ak = Some (VInt (int j * max_count (config self)))" .
    qed
  qed
qed


theorem offset_of_page_witness:
  "query probe_env (probe_connector ''limit'' 2) ''t'' None
       [''returned_number'' \<mapsto> VInt 5] script3 = (fst limit_run, snd limit_run) \<and>
   [''returned_number'' \<mapsto> VInt 5] ''returned_number'' = Some (VInt 5) \<and>
   pag_type (config (probe_connector ''limit'' 2)) = ''limit'' \<and>
   anchor_key (config (probe_connector ''limit'' 2)) = Some ''start'' \<and>
   length (fetched script3 (snd limit_run)) = 3 \<and>
   le_kwargs (fetched script3 (snd limit_run) ! 2) ''start''
     = Some (VInt (int 2 * max_count (config (probe_connector ''limit'' 2)))) \<and>
   map (\<lambda>e. le_kwargs e ''start'') (fetched script3 (snd limit_run))
     = [Some (VInt 0), Some (VInt 2), Some (VInt 4)]"
proof -
  have run: "query probe_env (probe_connector ''limit'' 2) ''t'' None
       [''returned_number'' \<mapsto> VInt 5] script3 = (fst limit_run, snd limit_run)"
    by (simp add: limit_run_def)
  have r: "[''returned_number'' \<mapsto> VInt 5] ''returned_number'' = Some (VInt 5)" by simp
  have t: "pag_type (config (probe_connector ''limit'' 2)) = ''limit''"
    by (simp add: probe_defs)
  have a: "anchor_key (config (probe_connector ''limit'' 2)) = Some ''start''"
    by (simp add: probe_defs)
  have n: "length (fetched script3 (snd limit_run)) = 3"
    by (simp add: limit_run_def probe_defs model_defs Let_def upt_rec)
  have vals: "map (\<lambda>e. le_kwargs e ''start'') (fetched script3 (snd limit_run))
     = [Some (VInt 0), Some (VInt 2), Some (VInt 4)]"
    by (simp add: limit_run_def probe_defs model_defs Let_def upt_rec)
  from offset_of_page [OF run r t a, rule_format, of 2] n
  have "le_kwargs (fetched script3 (snd limit_run) ! 2) ''start''
     = Some (VInt (int 2 * max_count (config (probe_connector ''limit'' 2))))"
    by simp
  with run r t a n vals show ?thesis by blast
qed

subsection \<open>A refused page\<close>




subsection \<open>The connector's own dictionaries\<close>

text \<open>
  C10. Whatever \<^verbatim>\<open>query\<close> returns or raises, the dictionaries \<^verbatim>\<open>self.vars\<close> and
  \<^verbatim>\<open>self.auth_params\<close> hold afterwards what they held before, and so does every
  dictionary that existed before the call: \<^verbatim>\<open>_fetch\<close> renames the count key in a
  dictionary it has allocated itself, and the authentication override is only read.
  The field groups and the authorization are taken, as their contracts say, to write
  to the request under construction only.
\<close>

theorem query_frame:
  assumes "query E self table ap whr w = (res, w')"
    and "vars_ref self < length (heap w)"
    and "auth_ref self < length (heap w)"
  shows "heap w' ! vars_ref self = heap w ! vars_ref self \<and>
         heap w' ! auth_ref self = heap w ! auth_ref self \<and>
         take (length (heap w)) (heap w') = heap w"
proof -
  from query_heap [OF assms(1)] obtain xs where "heap w' = heap w @ xs" by blast
  with assms(2,3) show ?thesis by (simp add: nth_append)
qed


theorem query_frame_witness:
  "vars_ref (probe_connector ''cursor'' 2) < length (heap stocked) \<and>
   auth_ref (probe_connector ''cursor'' 2) < length (heap stocked) \<and>
   length (heap (snd override_run)) = 5 \<and>
   (heap (snd override_run) ! 4) ''count'' = Some (VInt 1) \<and>
   heap (snd override_run) ! vars_ref (probe_connector ''cursor'' 2)
     = heap stocked ! vars_ref (probe_connector ''cursor'' 2) \<and>
   heap (snd override_run) ! auth_ref (probe_connector ''cursor'' 2)
     = heap stocked ! auth_ref (probe_connector ''cursor'' 2)"
proof -
  have run: "query probe_env (probe_connector ''cursor'' 2) ''t'' (Some [''token'' \<mapsto> VStr ''z''])
       [''returned_number'' \<mapsto> VInt 5] stocked = (fst override_run, snd override_run)"
    by (simp add: override_run_def)
  have v: "vars_ref (probe_connector ''cursor'' 2) < length (heap stocked)"
    by (simp add: probe_defs)
  have a: "auth_ref (probe_connector ''cursor'' 2) < length (heap stocked)"
    by (simp add: probe_defs)
  have n: "length (heap (snd override_run)) = 5"
    by (simp add: override_run_def probe_defs model_defs Let_def upt_rec)
  have c: "(heap (snd override_run) ! 4) ''count'' = Some (VInt 1)"
    by (simp add: override_run_def probe_defs model_defs Let_def upt_rec)
  from query_frame [OF run v a] v a n c show ?thesis by simp
qed

subsection \<open>The page plan\<close>

text \<open>
  C3, as stated: for a requested total \<open>r \<ge> 1\<close> and a page size \<open>m \<ge> 1\<close> the number of
  pages is \<open>\<lceil>r / m\<rceil>\<close>, all pages but the last ask for \<open>m\<close> rows and the last asks for
  \<open>r mod m\<close> rows, or \<open>m\<close> when that is zero. The page count goes through a float: for
  \<open>r = 10 ^ 17 + 1\<close> and \<open>m = 10 ^ 17\<close> the quotient rounds to \<open>1.0\<close>, and the query
  returns a table after one request, where \<open>\<lceil>r / m\<rceil>\<close> is \<open>2\<close>. And when the
  configuration names its offset parameter \<^verbatim>\<open>returned_number\<close>, the offset overwrites
  the size: five rows in pages of two are asked for as \<open>0\<close>, \<open>2\<close> and \<open>4\<close> rows.
\<close>

theorem query_page_plan_counterexample:
  "fst big_run = Inr (projr (fst big_run)) \<and>
   length (fetched script3 (snd big_run)) = 1 \<and>
   \<lceil>real_of_int (10 ^ 17 + 1) / real_of_int (10 ^ 17)\<rceil> = 2 \<and>
   length (fetched script3 (snd clash_run)) = 3 \<and>
   le_vars (fetched script3 (snd clash_run) ! 0) ''count'' = Some (VInt 0) \<and>
   le_vars (fetched script3 (snd clash_run) ! 1) ''count'' = Some (VInt 2) \<and>
   le_vars (fetched script3 (snd clash_run) ! 2) ''count'' = Some (VInt 4)"
proof -
  have 1: "fst big_run = Inr (projr (fst big_run))"
    by (simp add: big_run_def probe_defs model_defs ceil_div_big Let_def upt_rec)
  have 2: "length (fetched script3 (snd big_run)) = 1"
    by (simp add: big_run_def probe_defs model_defs ceil_div_big Let_def upt_rec)
  have 3: "\<lceil>real_of_int (10 ^ 17 + 1) / real_of_int (10 ^ 17)\<rceil> = 2"
    by (simp add: ceiling_divide_eq_div)
  have 4: "length (fetched script3 (snd clash_run)) = 3 \<and>
   le_vars (fetched script3 (snd clash_run) ! 0) ''count'' = Some (VInt 0) \<and>
   le_vars (fetched script3 (snd clash_run) ! 1) ''count'' = Some (VInt 2) \<and>
   le_vars (fetched script3 (snd clash_run) ! 2) ''count'' = Some (VInt 4)"
    by (simp add: clash_run_def probe_defs model_defs Let_def upt_rec)
  from 1 2 3 4 show ?thesis by simp
qed

text \<open>
  C3, amended: for a requested total \<open>r\<close> and a page size \<open>m\<close>, both at least \<open>1\<close> and
  below \<open>2 ^ 53\<close>, and a configuration that does not name its cursor or offset parameter
  \<^verbatim>\<open>returned_number\<close>, a query never sends more than \<open>\<lceil>r / m\<rceil>\<close> requests, and sends
  exactly that many when it returns a table. Page \<open>j\<close> asks for \<open>m\<close> rows when it is not
  the last page of the plan, and the last page asks for \<open>r mod m\<close> rows when that is not
  zero and for \<open>m\<close> rows otherwise. The size is read where the request reads it: under
  the configured count key of the variables the request is rendered from.
\<close>

theorem query_page_plan:
  assumes "query E self table ap whr w = (res, w')"
    and "whr ''returned_number'' = Some (VInt r)"
    and "1 \<le> r" and "r < 2 ^ 53"
    and "1 \<le> max_count (config self)" and "max_count (config self) < 2 ^ 53"
    and "cursor_key (config self) \<noteq> Some ''returned_number''"
    and "anchor_key (config self) \<noteq> Some ''returned_number''"
  shows "int (length (fetched w w')) \<le> \<lceil>real_of_int r / real_of_int (max_count (config self))\<rceil> \<and>
         ((\<exists>df. res = Inr df) \<longrightarrow>
            int (length (fetched w w')) = \<lceil>real_of_int r / real_of_int (max_count (config self))\<rceil>) \<and>
         (\<forall>j < length (fetched w w').
            le_vars (fetched w w' ! j) (count_key (config self)) =
              Some (VInt (if int j < \<lceil>real_of_int r / real_of_int (max_count (config self))\<rceil> - 1
                            then max_count (config self)
                          else if r mod max_count (config self) \<noteq> 0
                            then r mod max_count (config self)
                          else max_count (config self))))"
proof -
  let ?m = "max_count (config self)"
  let ?N = "- ((- r) div ?m)"
  have N: "\<lceil>real_of_int r / real_of_int ?m\<rceil> = ?N" by (rule ceiling_divide_eq_div)
  have m: "?m \<noteq> 0" using assms(5) by simp
  have cd: "true_divide_ceil r ?m = Inr ?N"
    by (rule true_divide_ceil_exact [OF assms(3,4,5,6)])
  have pos: "0 \<le> ?N" using assms(3,5) N
    by (metis ceiling_mono ceiling_zero divide_nonneg_nonneg of_int_0_le_iff
          order_trans zero_le_one)
  note L = query_paged_log [OF assms(1,2) m cd]
  have 1: "int (length (fetched w w')) \<le> ?N" using L pos by linarith
  have 2: "(\<exists>df. res = Inr df) \<longrightarrow> int (length (fetched w w')) = ?N"
    using L pos by auto
  have 3: "\<forall>j < length (fetched w w').
            le_vars (fetched w w' ! j) (count_key (config self)) =
              Some (VInt (page_size ?m ?N (r mod ?m) j))"
  proof (intro allI impI)
    fix j assume "j < length (fetched w w')"
    with L obtain s base where
      pw: "page_where (config self) ?N (r mod ?m) j s = Inr (le_kwargs (fetched w w' ! j))"
      and mv: "le_vars (fetched w w' ! j)
                 = rename_count (count_key (config self)) (base ++ le_kwargs (fetched w w' ! j))"
      by blast
    from page_where_size [OF pw assms(7,8)] mv
    show "le_vars (fetched w w' ! j) (count_key (config self)) =
              Some (VInt (page_size ?m ?N (r mod ?m) j))"
      by (simp add: rename_count_key)
  qed
  from 1 2 3 show ?thesis unfolding N page_size_def by simp
qed

theorem query_page_plan_witness:
  "query probe_env (probe_connector ''limit'' 2) ''t'' None
       [''returned_number'' \<mapsto> VInt 5] script3 = (fst limit_run, snd limit_run) \<and>
   [''returned_number'' \<mapsto> VInt 5] ''returned_number'' = Some (VInt 5) \<and>
   (1::int) \<le> 5 \<and> (5::int) < 2 ^ 53 \<and>
   1 \<le> max_count (config (probe_connector ''limit'' 2)) \<and>
   max_count (config (probe_connector ''limit'' 2)) < 2 ^ 53 \<and>
   cursor_key (config (probe_connector ''limit'' 2)) \<noteq> Some ''returned_number'' \<and>
   anchor_key (config (probe_connector ''limit'' 2)) \<noteq> Some ''returned_number'' \<and>
   (\<exists>df. fst limit_run = Inr df) \<and>
   int (length (fetched script3 (snd limit_run)))
     = \<lceil>real_of_int 5 / real_of_int (max_count (config (probe_connector ''limit'' 2)))\<rceil> \<and>
   map (\<lambda>e. le_vars e ''count'') (fetched script3 (snd limit_run))
     = [Some (VInt 2), Some (VInt 2), Some (VInt 1)]"
proof -
  have run: "query probe_env (probe_connector ''limit'' 2) ''t'' None
       [''returned_number'' \<mapsto> VInt 5] script3 = (fst limit_run, snd limit_run)"
    by (simp add: limit_run_def)
  have r: "[''returned_number'' \<mapsto> VInt 5] ''returned_number'' = Some (VInt 5)" by simp
  have m: "1 \<le> max_count (config (probe_connector ''limit'' 2))"
    by (simp add: probe_defs)
  have m': "max_count (config (probe_connector ''limit'' 2)) < 2 ^ 53"
    by (simp add: probe_defs)
  have c: "cursor_key (config (probe_connector ''limit'' 2)) \<noteq> Some ''returned_number''"
    by (simp add: probe_defs)
  have a: "anchor_key (config (probe_connector ''limit'' 2)) \<noteq> Some ''returned_number''"
    by (simp add: probe_defs)
  have ok: "\<exists>df. fst limit_run = Inr df"
    by (simp add: limit_run_def probe_defs model_defs Let_def upt_rec)
  have vals: "map (\<lambda>e. le_vars e ''count'') (fetched script3 (snd limit_run))
     = [Some (VInt 2), Some (VInt 2), Some (VInt 1)]"
    by (simp add: limit_run_def probe_defs model_defs Let_def upt_rec)
  have "int (length (fetched script3 (snd limit_run)))
     = \<lceil>real_of_int 5 / real_of_int (max_count (config (probe_connector ''limit'' 2)))\<rceil>"
    using query_page_plan [OF run r _ _ m m' c a] ok by simp
  with run r m m' c a ok vals show ?thesis by simp
qed

subsection \<open>No request asks for more than a page\<close>

text \<open>
  C8, as stated: every request carries a row count of at most \<^verbatim>\<open>max_count\<close>. When the
  configuration names its offset parameter \<^verbatim>\<open>returned_number\<close>, the offset overwrites
  the size of the page: with pages of two, the third request asks for four rows.
\<close>

theorem page_request_bounded_counterexample:
  "max_count (config clash_connector) = 2 \<and>
   length (fetched script3 (snd clash_run)) = 3 \<and>
   le_vars (fetched script3 (snd clash_run) ! 2) (count_key (config clash_connector))
     = Some (VInt 4)"
  by (simp add: clash_run_def probe_defs model_defs Let_def upt_rec)

text \<open>
  C8, amended: under a configuration that does not name its cursor or offset parameter
  \<^verbatim>\<open>returned_number\<close>, and whether or not the caller names a total (a total being at
  least \<open>1\<close>), every request sent is rendered with a row count, under the configured
  count key, of at most \<^verbatim>\<open>max_count\<close>.
\<close>

theorem page_request_bounded:
  assumes "query E self table ap whr w = (res, w')"
    and "\<forall>r. whr ''returned_number'' = Some (VInt r) \<longrightarrow> 1 \<le> r"
    and "cursor_key (config self) \<noteq> Some ''returned_number''"
    and "anchor_key (config self) \<noteq> Some ''returned_number''"
  shows "\<forall>e \<in> set (fetched w w').
           \<exists>k. le_vars e (count_key (config self)) = Some (VInt k) \<and>
               k \<le> max_count (config self)"
proof (cases "whr ''returned_number''")
  case None
  note S = query_single_log [OF assms(1) None]
  show ?thesis
  proof
    fix e assume "e \<in> set (fetched w w')"
    with S obtain base where
      kw: "le_kwargs e = whr(''returned_number'' \<mapsto> VInt (max_count (config self)))"
      and mv: "le_vars e = rename_count (count_key (config self)) (base ++ le_kwargs e)"
      by blast
    from kw have "le_kwargs e ''returned_number'' = Some (VInt (max_count (config self)))"
      by simp
    with mv have "le_vars e (count_key (config self)) = Some (VInt (max_count (config self)))"
      by (simp add: rename_count_key)
    then show "\<exists>k. le_vars e (count_key (config self)) = Some (VInt k) \<and>
               k \<le> max_count (config self)" by simp
  qed
next
  case (Some v)
  let ?m = "max_count (config self)"
  show ?thesis
  proof (cases "?m = 0 \<or> (\<exists>s. v = VStr s)")
    case True
    from query_unpaged(1) [OF assms(1) Some True] show ?thesis by (simp add: fetched_def)
  next
    case False
    then obtain r where v: "v = VInt r" and m: "?m \<noteq> 0"
      by (cases v) auto
    from assms(2) Some v have r: "1 \<le> r" by simp
    show ?thesis
    proof (cases "true_divide_ceil r ?m")
      case (Inl err)
      from query_undivided(1) [OF assms(1) Some [unfolded v] m Inl] show ?thesis
        by (simp add: fetched_def)
    next
      case (Inr N)
      note L = query_paged_log [OF assms(1) Some [unfolded v] m Inr]
      show ?thesis
      proof (cases "0 < ?m")
        case neg: False
        with m have "?m < 0" by simp
        with r Inr have "N \<le> 0" using true_divide_ceil_nonpos [of r ?m N] by simp
        then have "nat N = 0" by simp
        with L have "fetched w w' = []" by simp
        then show ?thesis by simp
      next
        case pos: True
        then have rem: "r mod ?m < ?m" by simp
        show ?thesis
        proof
          fix e assume "e \<in> set (fetched w w')"
          then obtain j where j: "j < length (fetched w w')" and e: "e = fetched w w' ! j"
            by (auto simp: in_set_conv_nth)
          with L obtain s base where
            pw: "page_where (config self) N (r mod ?m) j s = Inr (le_kwargs e)"
            and mv: "le_vars e = rename_count (count_key (config self)) (base ++ le_kwargs e)"
            by blast
          from page_where_size [OF pw assms(3,4)] mv
          have "le_vars e (count_key (config self)) = Some (VInt (page_size ?m N (r mod ?m) j))"
            by (simp add: rename_count_key)
          moreover have "page_size ?m N (r mod ?m) j \<le> ?m"
            using rem by (simp add: page_size_def)
          ultimately show "\<exists>k. le_vars e (count_key (config self)) = Some (VInt k) \<and> k \<le> ?m"
            by blast
        qed
      qed
    qed
  qed
qed

theorem page_request_bounded_witness:
  "query probe_env (probe_connector ''limit'' 2) ''t'' None
       [''returned_number'' \<mapsto> VInt 5] script3 = (fst limit_run, snd limit_run) \<and>
   [''returned_number'' \<mapsto> VInt 5] ''returned_number'' = Some (VInt 5) \<and>
   cursor_key (config (probe_connector ''limit'' 2)) \<noteq> Some ''returned_number'' \<and>
   anchor_key (config (probe_connector ''limit'' 2)) \<noteq> Some ''returned_number'' \<and>
   length (fetched script3 (snd limit_run)) = 3 \<and>
   list_all
     (\<lambda>e. \<exists>k. le_vars e (count_key (config (probe_connector ''limit'' 2))) = Some (VInt k) \<and>
               k \<le> max_count (config (probe_connector ''limit'' 2)))
     (fetched script3 (snd limit_run))"
proof -
  have run: "query probe_env (probe_connector ''limit'' 2) ''t'' None
       [''returned_number'' \<mapsto> VInt 5] script3 = (fst limit_run, snd limit_run)"
    by (simp add: limit_run_def)
  have r: "\<forall>r. [''returned_number'' \<mapsto> VInt 5] ''returned_number'' = Some (VInt r) \<longrightarrow> 1 \<le> r"
    by simp
  have c: "cursor_key (config (probe_connector ''limit'' 2)) \<noteq> Some ''returned_number''"
    by (simp add: probe_defs)
  have a: "anchor_key (config (probe_connector ''limit'' 2)) \<noteq> Some ''returned_number''"
    by (simp add: probe_defs)
  have n: "length (fetched script3 (snd limit_run)) = 3"
    by (simp add: limit_run_def probe_defs model_defs Let_def upt_rec)
  from page_request_bounded [OF run r c a]
  have "list_all
     (\<lambda>e. \<exists>k. le_vars e (count_key (config (probe_connector ''limit'' 2))) = Some (VInt k) \<and>
               k \<le> max_count (config (probe_connector ''limit'' 2)))
     (fetched script3 (snd limit_run))"
    by (simp add: list_all_iff)
  with run c a n show ?thesis by simp
qed

subsection \<open>Sources without a pagination strategy\<close>

text \<open>
  C2, as stated: with a strategy that is neither cursor nor offset, \<^verbatim>\<open>query\<close> sends
  exactly one request, whatever \<^verbatim>\<open>returned_number\<close> the caller passes. The page count
  does not look at the strategy: five rows in pages of two are three requests.
\<close>

theorem plain_strategy_counterexample:
  "pag_type (config (probe_connector ''none'' 2)) = ''none'' \<and>
   (\<exists>df. fst plain_run = Inr df) \<and>
   length (fetched script3 (snd plain_run)) = 3 \<and>
   length (fetched script3 (snd plain_run)) \<noteq> 1"
  by (simp add: plain_run_def probe_defs model_defs Let_def upt_rec)

text \<open>
  C2, amended: with a strategy that is neither cursor nor offset, a query that returns
  a table has sent exactly one request when the caller passed no \<^verbatim>\<open>returned_number\<close>,
  and, when the caller passed \<open>r\<close>, as many requests as line 181 computes pages, which
  is \<open>\<lceil>r / max_count\<rceil>\<close> whenever \<open>r\<close> and \<^verbatim>\<open>max_count\<close> are at least \<open>1\<close> and below
  \<open>2 ^ 53\<close>; in both cases every request is made with the caller's parameters and the
  page size only, no cursor or offset parameter being added.
\<close>

theorem plain_strategy_requests:
  assumes "query E self table ap whr w = (Inr df, w')"
    and "pag_type (config self) \<noteq> ''cursor''"
    and "pag_type (config self) \<noteq> ''limit''"
  shows "(whr ''returned_number'' = None \<longrightarrow> length (fetched w w') = 1) \<and>
         (\<forall>r. whr ''returned_number'' = Some (VInt r) \<longrightarrow>
            ceil_div (VInt r) (max_count (config self)) = Inr (int (length (fetched w w')))) \<and>
         (\<forall>r. whr ''returned_number'' = Some (VInt r) \<and> 1 \<le> r \<and> r < 2 ^ 53 \<and>
              1 \<le> max_count (config self) \<and> max_count (config self) < 2 ^ 53 \<longrightarrow>
            int (length (fetched w w'))
              = \<lceil>real_of_int r / real_of_int (max_count (config self))\<rceil>) \<and>
         (\<forall>e \<in> set (fetched w w'). \<forall>k. k \<noteq> ''returned_number'' \<longrightarrow> le_kwargs e k = whr k)"
proof (cases "whr ''returned_number''")
  case None
  from query_single_log [OF assms(1) None] None show ?thesis by auto
next
  case (Some v)
  from query_unpaged(2) [OF assms(1) Some] obtain r where v: "v = VInt r"
    by (cases v) auto
  note r = Some [unfolded v]
  from query_success_pages [OF assms(1) r] obtain N
    where m: "max_count (config self) \<noteq> 0"
      and cd: "true_divide_ceil r (max_count (config self)) = Inr N" and N: "0 < N"
    by blast
  from query_paged_log [OF assms(1) r m cd] N
  have len: "int (length (fetched w w')) = N" by auto
  have 1: "ceil_div (VInt r) (max_count (config self)) = Inr (int (length (fetched w w')))"
    using cd m len by (simp add: ceil_div_def)
  have 2: "1 \<le> r \<and> r < 2 ^ 53 \<and> 1 \<le> max_count (config self) \<and>
           max_count (config self) < 2 ^ 53 \<longrightarrow>
           int (length (fetched w w'))
             = \<lceil>real_of_int r / real_of_int (max_count (config self))\<rceil>"
  proof
    assume "1 \<le> r \<and> r < 2 ^ 53 \<and> 1 \<le> max_count (config self) \<and>
            max_count (config self) < 2 ^ 53"
    then have "true_divide_ceil r (max_count (config self))
                 = Inr (- ((- r) div max_count (config self)))"
      by (intro true_divide_ceil_exact) simp_all
    with cd len show "int (length (fetched w w'))
             = \<lceil>real_of_int r / real_of_int (max_count (config self))\<rceil>"
      by (simp add: ceiling_divide_eq_div)
  qed
  have inj: "\<forall>e \<in> set (fetched w w'). \<forall>k. k \<noteq> ''returned_number'' \<longrightarrow> le_kwargs e k = whr k"
    using assms(1) r m
  proof (cases rule: query_paged)
    case unknown
    then show ?thesis by simp
  next
    case (undivided e)
    then show ?thesis by simp
  next
    case (paged itb N' lres)
    from page_loop_plain [OF paged(3) assms(2,3)] show ?thesis by simp
  qed
  from 1 2 inj r show ?thesis by simp
qed

theorem plain_strategy_requests_witness:
  "query probe_env (probe_connector ''none'' 2) ''t'' None
       [''returned_number'' \<mapsto> VInt 5] script3
     = (Inr (projr (fst plain_run)), snd plain_run) \<and>
   pag_type (config (probe_connector ''none'' 2)) \<noteq> ''cursor'' \<and>
   pag_type (config (probe_connector ''none'' 2)) \<noteq> ''limit'' \<and>
   ceil_div (VInt 5) (max_count (config (probe_connector ''none'' 2)))
     = Inr (int (length (fetched script3 (snd plain_run)))) \<and>
   int (length (fetched script3 (snd plain_run)))
     = \<lceil>real_of_int 5 / real_of_int (max_count (config (probe_connector ''none'' 2)))\<rceil> \<and>
   length (fetched script3 (snd plain_run)) = 3 \<and>
   list_all (\<lambda>e. le_kwargs e ''start'' = None \<and> le_kwargs e ''max_id'' = None)
     (fetched script3 (snd plain_run))"
proof -
  have ok: "fst plain_run = Inr (projr (fst plain_run))"
    by (simp add: plain_run_def probe_defs model_defs Let_def upt_rec)
  have run: "query probe_env (probe_connector ''none'' 2) ''t'' None
       [''returned_number'' \<mapsto> VInt 5] script3
     = (Inr (projr (fst plain_run)), snd plain_run)"
    using ok by (simp add: plain_run_def prod_eq_iff)
  have c: "pag_type (config (probe_connector ''none'' 2)) \<noteq> ''cursor''"
    by (simp add: probe_defs)
  have l: "pag_type (config (probe_connector ''none'' 2)) \<noteq> ''limit''"
    by (simp add: probe_defs)
  have m: "max_count (config (probe_connector ''none'' 2)) = 2"
    by (simp add: probe_defs)
  have len: "length (fetched script3 (snd plain_run)) = 3"
    by (simp add: plain_run_def probe_defs model_defs Let_def upt_rec)
  note T = plain_strategy_requests [OF run c l]
  from T have cd: "ceil_div (VInt 5) (max_count (config (probe_connector ''none'' 2)))
     = Inr (int (length (fetched script3 (snd plain_run))))"
    by simp
  from T m have n: "int (length (fetched script3 (snd plain_run)))
     = \<lceil>real_of_int 5 / real_of_int (max_count (config (probe_connector ''none'' 2)))\<rceil>"
    by simp
  from T have "list_all (\<lambda>e. le_kwargs e ''start'' = None \<and> le_kwargs e ''max_id'' = None)
     (fetched script3 (snd plain_run))"
    by (simp add: list_all_iff)
  with run c l cd n len show ?thesis by simp
qed

subsection \<open>The reserved call parameter\<close>

text \<open>
  C7, as stated: whenever the merged parameters contain \<^verbatim>\<open>returned_number\<close>, rendering
  sees the value under the configured count key and never sees \<^verbatim>\<open>returned_number\<close>.
  When the configured count key is itself \<^verbatim>\<open>returned_number\<close>, the key is popped and
  stored again under the same name, and the request is rendered from variables that
  still hold it.
\<close>

theorem rename_before_rendering_counterexample:
  "count_key (config reserved_connector) = ''returned_number'' \<and>
   merged_vars reserved_connector [''returned_number'' \<mapsto> VInt 3] script3 ''returned_number''
     = Some (VInt 3) \<and>
   length (fetched script3
             (snd (fetch probe_env reserved_connector probe_table None
                     [''returned_number'' \<mapsto> VInt 3] script3))) = 1 \<and>
   le_vars (fetched script3
              (snd (fetch probe_env reserved_connector probe_table None
                      [''returned_number'' \<mapsto> VInt 3] script3)) ! 0) ''returned_number''
     = Some (VInt 3)"
  by (simp add: probe_defs model_defs Let_def)

text \<open>
  C7, amended: when the configured count key is another name than \<^verbatim>\<open>returned_number\<close>
  and the merged parameters of a request contain \<^verbatim>\<open>returned_number\<close>, the variables
  every field group is rendered from hold its value under the configured count key and
  do not hold \<^verbatim>\<open>returned_number\<close> any more; all other keys are as merged. The renaming
  comes before every rendering: \<^verbatim>\<open>_fetch\<close> behaves the same for any two renderings
  that agree on the renamed variables, so headers, params, cookies and body are rendered
  from those and from nothing else, and the variables logged with a request that was
  sent are the renamed ones.
\<close>

theorem rename_before_rendering:
  assumes "(heap w ! vars_ref self ++ kwargs) ''returned_number'' = Some v"
    and "count_key (config self) \<noteq> ''returned_number''"
  shows "merged_vars self kwargs w (count_key (config self)) = Some v \<and>
         merged_vars self kwargs w ''returned_number'' = None \<and>
         (\<forall>k. k \<noteq> count_key (config self) \<longrightarrow> k \<noteq> ''returned_number'' \<longrightarrow>
              merged_vars self kwargs w k = (heap w ! vars_ref self ++ kwargs) k) \<and>
         (\<forall>p. (\<forall>f. p f (merged_vars self kwargs w) = populate E f (merged_vars self kwargs w)) \<longrightarrow>
              fetch (E\<lparr>populate := p\<rparr>) self tb ap kwargs w = fetch E self tb ap kwargs w) \<and>
         (\<forall>e \<in> set (fetched w (snd (fetch E self tb ap kwargs w))).
              le_vars e = merged_vars self kwargs w)"
proof -
  have 1: "merged_vars self kwargs w (count_key (config self)) = Some v"
    using assms(1) by (simp add: merged_vars_def rename_count_def)
  have 2: "merged_vars self kwargs w ''returned_number'' = None"
    using assms by (simp add: merged_vars_def rename_count_def)
  have 3: "\<forall>k. k \<noteq> count_key (config self) \<longrightarrow> k \<noteq> ''returned_number'' \<longrightarrow>
              merged_vars self kwargs w k = (heap w ! vars_ref self ++ kwargs) k"
    using assms(1) by (simp add: merged_vars_def rename_count_def)
  have 4: "\<forall>p. (\<forall>f. p f (merged_vars self kwargs w) = populate E f (merged_vars self kwargs w)) \<longrightarrow>
              fetch (E\<lparr>populate := p\<rparr>) self tb ap kwargs w = fetch E self tb ap kwargs w"
    using fetch_cong by blast
  have 5: "\<forall>e \<in> set (fetched w (snd (fetch E self tb ap kwargs w))).
              le_vars e = merged_vars self kwargs w"
  proof -
    obtain r w1 where f: "fetch E self tb ap kwargs w = (r, w1)"
      by (cases "fetch E self tb ap kwargs w")
    from f show ?thesis
      by (cases rule: fetch_cases) (simp_all add: f fetched_def entry_def)
  qed
  from 1 2 3 4 5 show ?thesis by blast
qed


theorem rename_before_rendering_witness:
  "(heap script3 ! vars_ref (probe_connector ''limit'' 50)
      ++ [''returned_number'' \<mapsto> VInt 30, ''start'' \<mapsto> VInt 0]) ''returned_number''
     = Some (VInt 30) \<and>
   count_key (config (probe_connector ''limit'' 50)) \<noteq> ''returned_number'' \<and>
   merged_vars (probe_connector ''limit'' 50)
      [''returned_number'' \<mapsto> VInt 30, ''start'' \<mapsto> VInt 0] script3 ''count''
     = Some (VInt 30) \<and>
   merged_vars (probe_connector ''limit'' 50)
      [''returned_number'' \<mapsto> VInt 30, ''start'' \<mapsto> VInt 0] script3 ''returned_number''
     = None \<and>
   fetch (probe_env\<lparr>populate := wary_populate\<rparr>) (probe_connector ''limit'' 50) probe_table None
      [''returned_number'' \<mapsto> VInt 30, ''start'' \<mapsto> VInt 0] script3
     = fetch probe_env (probe_connector ''limit'' 50) probe_table None
         [''returned_number'' \<mapsto> VInt 30, ''start'' \<mapsto> VInt 0] script3 \<and>
   fst (fetch (probe_env\<lparr>populate := wary_populate\<rparr>) (probe_connector ''limit'' 50)
          probe_table None [''returned_number'' \<mapsto> VInt 30, ''start'' \<mapsto> VInt 0] script3)
     = Inr (reply 200 ''ab'')"
proof -
  let ?kw = "[''returned_number'' \<mapsto> VInt 30, ''start'' \<mapsto> VInt 0]"
  let ?c = "probe_connector ''limit'' 50"
  have h1: "(heap script3 ! vars_ref ?c ++ ?kw) ''returned_number'' = Some (VInt 30)"
    by (simp add: probe_defs)
  have h2: "count_key (config ?c) \<noteq> ''returned_number''"
    by (simp add: probe_defs)
  note T = rename_before_rendering [OF h1 h2, where E = probe_env and tb = probe_table
      and ap = None]
  have c: "merged_vars ?c ?kw script3 ''count'' = Some (VInt 30)"
    using T by (simp add: probe_defs)
  have n: "merged_vars ?c ?kw script3 ''returned_number'' = None"
    using T by simp
  have "\<forall>f. wary_populate f (merged_vars ?c ?kw script3)
           = populate probe_env f (merged_vars ?c ?kw script3)"
    using n by (simp add: wary_populate_def probe_env_def)
  with T have eq: "fetch (probe_env\<lparr>populate := wary_populate\<rparr>) ?c probe_table None ?kw script3
     = fetch probe_env ?c probe_table None ?kw script3"
    by blast
  have r: "fst (fetch probe_env ?c probe_table None ?kw script3) = Inr (reply 200 ''ab'')"
    by (simp add: probe_defs model_defs Let_def)
  from h1 h2 c n eq r show ?thesis by simp
qed


subsection \<open>The table returned\<close>

text \<open>
  C6, as stated: the table returned has its index reassigned to \<open>0, 1, \<dots>\<close>, also when
  the caller requested no total. On that branch \<^verbatim>\<open>query\<close> returns what
  \<^verbatim>\<open>from_response\<close> made of the single response and never calls \<^verbatim>\<open>reset_index\<close>: with
  a decoder that labels its rows from \<open>10\<close> on, the table returned is labelled \<open>10, 11\<close>.
\<close>

theorem query_rows_counterexample:
  "Map.empty ''returned_number'' = (None :: pyval option) \<and>
   fst shifted_run = Inr (projr (fst shifted_run)) \<and>
   map fst (projr (fst shifted_run)) = [10, 11] \<and>
   map fst (projr (fst shifted_run)) \<noteq> map int [0..<length (projr (fst shifted_run))]"
  by (simp add: shifted_run_def probe_defs model_defs Let_def upt_rec)

text \<open>
  C6, amended: the rows of the table a query returns are the rows decoded from the
  responses, page after page in the order the requests were sent and, inside a page, in
  the order decoded, and their number is the sum of the numbers of rows of the pages.
  When the caller requested a total, the index of the table is reassigned to
  \<open>0, 1, \<dots>\<close> up to its length; when the caller requested none, the table is the one
  decoded from the single response, index included.
\<close>

theorem query_rows:
  assumes "query E self table ap whr w = (Inr df, w')"
    and "tables self table = Some itb"
  shows "map snd df = concat (map (page_rows E itb) (fetched w w')) \<and>
         length df = sum_list (map (\<lambda>e. length (page_rows E itb e)) (fetched w w')) \<and>
         (\<forall>e \<in> set (fetched w w'). \<exists>t. from_response E itb (le_response e) = Inr t) \<and>
         (whr ''returned_number'' \<noteq> None \<longrightarrow> map fst df = map int [0..<length df]) \<and>
         (whr ''returned_number'' = None \<longrightarrow>
            (\<exists>e. fetched w w' = [e] \<and> from_response E itb (le_response e) = Inr df))"
proof -
  have main: "map snd df = concat (map (page_rows E itb) (fetched w w')) \<and>
         (\<forall>e \<in> set (fetched w w'). \<exists>t. from_response E itb (le_response e) = Inr t) \<and>
         (whr ''returned_number'' \<noteq> None \<longrightarrow> map fst df = map int [0..<length df]) \<and>
         (whr ''returned_number'' = None \<longrightarrow>
            (\<exists>e. fetched w w' = [e] \<and> from_response E itb (le_response e) = Inr df))"
  proof (cases "whr ''returned_number''")
    case None
    from assms(1) None show ?thesis
    proof (cases rule: query_single)
      case unknown
      then show ?thesis by simp
    next
      case (single tb fres)
      with assms(2) have tb: "tb = itb" by simp
      from single(3) obtain resp where fres: "fres = Inr resp"
        and fr: "from_response E itb resp = Inr df"
        unfolding tb by (cases fres) auto
      from single(2) [unfolded tb fres] have f: "\<exists>req. fetched w w' =
          [entry self (whr(''returned_number'' \<mapsto> VInt (max_count (config self)))) w req resp]"
        by (cases rule: fetch_cases) (auto simp: fetched_def)
      from f fr None show ?thesis
        by (auto simp: page_rows_def entry_def)
    qed
  next
    case (Some v)
    from query_unpaged(2) [OF assms(1) Some] obtain r where v: "v = VInt r"
      by (cases v) auto
    note r = Some [unfolded v]
    let ?m = "max_count (config self)"
    from query_success_pages [OF assms(1) r] have m: "?m \<noteq> 0" by simp
    from assms(1) r m show ?thesis
    proof (cases rule: query_paged)
      case unknown
      then show ?thesis by simp
    next
      case (undivided e)
      then show ?thesis by simp
    next
      case (paged tb N lres)
      with assms(2) have tb: "tb = itb" by simp
      from paged(4) obtain st' d' where lres: "lres = Inr st'" and d': "ls_df st' = Some d'"
        and df: "df = reset_index d'"
        by (cases lres) (auto split: option.splits)
      have N: "0 < N"
      proof (rule ccontr)
        assume "\<not> 0 < N"
        then have "nat N = 0" by simp
        with paged(3) lres d' show False by auto
      qed
      then have idx: "[0..<nat N] = 0 # [1..<nat N]" by (simp add: upt_conv_Cons)
      let ?st0 = "\<lparr>ls_where = whr, ls_last_id = 0, ls_df = None\<rparr>"
      obtain r0 w1 where step: "page_step E self itb ap N (r mod ?m) 0 ?st0 w = (r0, w1)"
        by (cases "page_step E self itb ap N (r mod ?m) 0 ?st0 w")
      with paged(3) [unfolded tb lres idx] obtain st1 where r0: "r0 = Inr st1"
        and loop: "page_loop E self itb ap N (r mod ?m) [1..<nat N] st1 w1 = (Inr st', w')"
        by (cases r0) auto
      from page_step_rows [OF step [unfolded r0]] obtain e df' where
        e: "fetched w w1 = [e]" "sent w1 = sent w @ [e]"
           "from_response E itb (le_response e) = Inr df'"
           "accumulate 0 (ls_df ?st0) df' = Inr (the (ls_df st1))" "ls_df st1 \<noteq> None"
        by blast
      from e(4,5) have d1: "ls_df st1 = Some df'" by (auto simp: accumulate_def)
      have rest: "\<forall>i \<in> set [1..<nat N]. 0 < i" by simp
      from page_loop_rows [OF loop rest d1] d' have
        rows: "map snd d' = map snd df' @ concat (map (page_rows E itb) (fetched w1 w'))"
        and dec: "\<forall>e \<in> set (fetched w1 w'). \<exists>t. from_response E itb (le_response e) = Inr t"
        by auto
      from page_loop_log [OF loop] obtain es where es: "sent w' = sent w1 @ es" by blast
      then have f1: "fetched w1 w' = es" by (rule fetched_append)
      from es e(2) have "sent w' = sent w @ (e # es)" by simp
      then have f: "fetched w w' = e # es" by (rule fetched_append)
      have pe: "page_rows E itb e = map snd df'" using e(3) by (simp add: page_rows_def)
      from rows dec f1 pe e(3) df Some show ?thesis unfolding f
        by (simp add: snd_reset_index fst_reset_index length_reset_index)
    qed
  qed
  then have "length (map snd df) = length (concat (map (page_rows E itb) (fetched w w')))"
    by simp
  then have "length df = sum_list (map (\<lambda>e. length (page_rows E itb e)) (fetched w w'))"
    by (simp add: length_concat comp_def)
  with main show ?thesis by simp
qed

theorem query_rows_witness:
  "query probe_env (probe_connector ''limit'' 2) ''t'' None
       [''returned_number'' \<mapsto> VInt 5] script3
     = (Inr (projr (fst limit_run)), snd limit_run) \<and>
   tables (probe_connector ''limit'' 2) ''t'' = Some probe_table \<and>
   map snd (projr (fst limit_run))
     = concat (map (page_rows probe_env probe_table) (fetched script3 (snd limit_run))) \<and>
   length (projr (fst limit_run))
     = sum_list (map (\<lambda>e. length (page_rows probe_env probe_table e))
                   (fetched script3 (snd limit_run))) \<and>
   map (\<lambda>e. length (page_rows probe_env probe_table e)) (fetched script3 (snd limit_run))
     = [2, 2, 1] \<and>
   map (\<lambda>r. r ''id'') (map snd (projr (fst limit_run)))
     = [Some (VInt 97), Some (VInt 98), Some (VInt 99), Some (VInt 100), Some (VInt 101)] \<and>
   map fst (projr (fst limit_run)) = map int [0..<length (projr (fst limit_run))] \<and>
   map fst (projr (fst limit_run)) = [0, 1, 2, 3, 4]"
proof -
  have ok: "fst limit_run = Inr (projr (fst limit_run))"
    by (simp add: limit_run_def probe_defs model_defs Let_def upt_rec)
  have run: "query probe_env (probe_connector ''limit'' 2) ''t'' None
       [''returned_number'' \<mapsto> VInt 5] script3
     = (Inr (projr (fst limit_run)), snd limit_run)"
    using ok by (simp add: limit_run_def prod_eq_iff)
  have t: "tables (probe_connector ''limit'' 2) ''t'' = Some probe_table"
    by (simp add: probe_defs)
  have sizes: "map (\<lambda>e. length (page_rows probe_env probe_table e))
                 (fetched script3 (snd limit_run)) = [2, 2, 1]"
    by (simp add: limit_run_def probe_defs model_defs Let_def upt_rec)
  have ids: "map (\<lambda>r. r ''id'') (map snd (projr (fst limit_run)))
     = [Some (VInt 97), Some (VInt 98), Some (VInt 99), Some (VInt 100), Some (VInt 101)]"
    by (simp add: limit_run_def probe_defs model_defs Let_def upt_rec)
  have idx: "map fst (projr (fst limit_run)) = [0, 1, 2, 3, 4]"
    by (simp add: limit_run_def probe_defs model_defs Let_def upt_rec)
  note T = query_rows [OF run t]
  have rn: "[''returned_number'' \<mapsto> VInt 5] ''returned_number'' \<noteq> None" by simp
  from T have rows: "map snd (projr (fst limit_run))
     = concat (map (page_rows probe_env probe_table) (fetched script3 (snd limit_run)))"
    by blast
  from T have len: "length (projr (fst limit_run))
     = sum_list (map (\<lambda>e. length (page_rows probe_env probe_table e))
                   (fetched script3 (snd limit_run)))"
    by blast
  from T rn have dense: "map fst (projr (fst limit_run))
     = map int [0..<length (projr (fst limit_run))]"
    by blast
  from run t rows len sizes ids dense idx show ?thesis by blast
qed

end
